theory Spec2Isabelle
  imports Complex_Main "HOL-Library.AList" "HOL-Library.Sublist"
begin

text \<open>
  A shallow embedding of the parts of the dashboard that its specification makes claims
  about, and the proofs of those claims: the in-memory rate limiter with its helper for
  the API routes, the parsers of the responses of the writing and the research service,
  the error translation and the analyze route, and the two-step workflow of the editor
  up to the export. The functions keep the names they have in the TypeScript sources;
  the clock, \<open>JSON.parse\<close> and the calls to the external services are arguments.
\<close>

section \<open>The in-memory rate limiter (src/lib/rate-limiter.ts)\<close>

text \<open>
  Numbers of the rate limiter are clock readings in milliseconds (\<open>Date.now()\<close>), window
  lengths and request counts: integers, modelled as \<open>int\<close>. A JavaScript \<open>Map\<close> keeps its
  keys in insertion order and holds each key once; it is modelled as an association list,
  \<open>Map.get\<close> is \<open>map_of\<close>, \<open>Map.set\<close> is \<open>AList.update\<close> (an existing key keeps its
  place, a new key goes to the end) and \<open>Map.delete\<close> is \<open>AList.delete\<close>. The clock is
  an argument of every operation that reads it.
\<close>

record RateLimitConfig =
  maxRequests :: int
  windowMs :: int
  service :: string

record RequestRecord =
  timestamp :: int
  count :: int

record RateLimiter =
  requests :: "(string \<times> RequestRecord list) list"
  configs :: "(string \<times> RateLimitConfig) list"

text \<open>Values a JavaScript \<open>throw\<close> can carry, as far as \<open>handleAPIError\<close> tells them apart.\<close>

record AxiosResponse =
  resp_status :: int
  data_message :: "string option"
  retry_after :: "int option"

datatype error =
    APIError string int string
  | ResponseError string AxiosResponse
  | RequestError string
  | Error string

definition RateLimiter_new :: RateLimiter where
  "RateLimiter_new =
     \<lparr>requests = [],
      configs =
        AList.update ''default'' \<lparr>maxRequests = 100, windowMs = 60 * 1000, service = ''default''\<rparr>
       (AList.update ''claude'' \<lparr>maxRequests = 50, windowMs = 60 * 1000, service = ''claude''\<rparr>
       (AList.update ''perplexity''
          \<lparr>maxRequests = 20, windowMs = 60 * 1000, service = ''perplexity''\<rparr> []))\<rparr>"

text \<open>
  \<open>this.configs.get(service) || this.configs.get('default')!\<close>: a stored configuration is
  an object, hence truthy. Without a default entry the expression is \<open>undefined\<close>, and the
  first access to a field of it throws; that is the value \<open>None\<close> here.
\<close>

definition lookupConfig :: "(string \<times> RateLimitConfig) list \<Rightarrow> string \<Rightarrow> RateLimitConfig option" where
  "lookupConfig cfgs svc =
     (case map_of cfgs svc of
        Some c \<Rightarrow> Some c
      | None \<Rightarrow> map_of cfgs ''default'')"

definition getConfig :: "RateLimiter \<Rightarrow> string \<Rightarrow> RateLimitConfig option" where
  "getConfig rl svc = lookupConfig (configs rl) svc"

definition no_config :: error where
  "no_config = Error ''Cannot read properties of undefined''"

definition make_key :: "string \<Rightarrow> string \<Rightarrow> string" where
  "make_key svc ident = svc @ '':'' @ ident"

definition window_of :: "RateLimiter \<Rightarrow> string \<Rightarrow> RequestRecord list" where
  "window_of rl key = (case map_of (requests rl) key of Some rs \<Rightarrow> rs | None \<Rightarrow> [])"

definition unexpired :: "int \<Rightarrow> RateLimitConfig \<Rightarrow> RequestRecord \<Rightarrow> bool" where
  "unexpired now config req \<longleftrightarrow> now - timestamp req < windowMs config"

definition checkLimit ::
    "RateLimiter \<Rightarrow> string \<Rightarrow> string \<Rightarrow> int \<Rightarrow> error + (bool \<times> RateLimiter)" where
  "checkLimit rl svc ident now =
     (case getConfig rl svc of
        None \<Rightarrow> Inl no_config
      | Some config \<Rightarrow>
          let key = make_key svc ident;
              reqs = window_of rl key;
              reqs = filter (unexpired now config) reqs
          in if int (length reqs) \<ge> maxRequests config
             then Inr (False, rl\<lparr>requests := AList.update key reqs (requests rl)\<rparr>)
             else Inr (True,
                    rl\<lparr>requests :=
                         AList.update key (reqs @ [\<lparr>timestamp = now, count = 1\<rparr>]) (requests rl)\<rparr>))"

definition getRemainingRequests :: "RateLimiter \<Rightarrow> string \<Rightarrow> string \<Rightarrow> int \<Rightarrow> error + int" where
  "getRemainingRequests rl svc ident now =
     (case getConfig rl svc of
        None \<Rightarrow> Inl no_config
      | Some config \<Rightarrow>
          let validRequests = filter (unexpired now config) (window_of rl (make_key svc ident))
          in Inr (max 0 (maxRequests config - int (length validRequests))))"

definition getResetTime :: "RateLimiter \<Rightarrow> string \<Rightarrow> string \<Rightarrow> error + int option" where
  "getResetTime rl svc ident =
     (case getConfig rl svc of
        None \<Rightarrow> (case window_of rl (make_key svc ident) of [] \<Rightarrow> Inr None | _ \<Rightarrow> Inl no_config)
      | Some config \<Rightarrow>
          (case window_of rl (make_key svc ident) of
             [] \<Rightarrow> Inr None
           | oldestRequest # _ \<Rightarrow> Inr (Some (timestamp oldestRequest + windowMs config))))"

text \<open>\<open>key.split(':')[0]\<close>: the part of the key before its first colon.\<close>

definition service_of_key :: "string \<Rightarrow> string" where
  "service_of_key key = takeWhile (\<lambda>c. c \<noteq> CHR '':'') key"

text \<open>
  One round of the loop of \<open>cleanup\<close>. The iterator visits every key of the table once,
  with the list stored under it; deleting or overwriting the visited key does not disturb
  the iteration. The filter reads the configuration only when the list has an element.
\<close>

definition cleanup_entry ::
    "int \<Rightarrow> (string \<times> RateLimitConfig) list \<Rightarrow> (string \<times> RequestRecord list) list \<Rightarrow>
     string \<times> RequestRecord list \<Rightarrow> error + (string \<times> RequestRecord list) list" where
  "cleanup_entry now cfgs table entry =
     (case entry of (key, reqs) \<Rightarrow>
        (case lookupConfig cfgs (service_of_key key) of
           None \<Rightarrow> if reqs = [] then Inr (AList.delete key table) else Inl no_config
         | Some config \<Rightarrow>
             let validRequests = filter (unexpired now config) reqs
             in if length validRequests = 0
                then Inr (AList.delete key table)
                else Inr (AList.update key validRequests table)))"

text \<open>
  The loop over the entries; a throw leaves the table as the rounds before it made it.
\<close>

fun cleanup_loop ::
    "int \<Rightarrow> (string \<times> RateLimitConfig) list \<Rightarrow> (string \<times> RequestRecord list) list \<Rightarrow>
     (string \<times> RequestRecord list) list \<Rightarrow> error option \<times> (string \<times> RequestRecord list) list" where
  "cleanup_loop now cfgs table [] = (None, table)"
| "cleanup_loop now cfgs table (entry # entries) =
     (case cleanup_entry now cfgs table entry of
        Inl e \<Rightarrow> (Some e, table)
      | Inr table' \<Rightarrow> cleanup_loop now cfgs table' entries)"

definition cleanup :: "RateLimiter \<Rightarrow> int \<Rightarrow> error option \<times> RateLimiter" where
  "cleanup rl now =
     (case cleanup_loop now (configs rl) (requests rl) (requests rl) of
        (err, table) \<Rightarrow> (err, rl\<lparr>requests := table\<rparr>))"

subsection \<open>The helper for API routes\<close>

text \<open>
  A number inside a template string, for an integer: its decimal digits, most significant
  first, after a minus sign when it is negative.
\<close>

definition digit_char :: "nat \<Rightarrow> char" where
  "digit_char d = ''0123456789'' ! d"

fun render_nat :: "nat \<Rightarrow> string \<Rightarrow> string" where
  "render_nat n acc =
     (let acc' = digit_char (n mod 10) # acc
      in if n div 10 = 0 then acc' else render_nat (n div 10) acc')"

declare render_nat.simps [simp del]

definition number_text :: "int \<Rightarrow> string" where
  "number_text i = (if 0 \<le> i then render_nat (nat i) [] else CHR ''-'' # render_nat (nat (- i)) [])"

text \<open>\<open>Math.ceil(a / b)\<close> for integers \<open>a\<close> and a positive integer \<open>b\<close>.\<close>

definition math_ceil_quot :: "int \<Rightarrow> int \<Rightarrow> int" where
  "math_ceil_quot a b = - ((- a) div b)"

definition rate_limit_message :: "string \<Rightarrow> int \<Rightarrow> string" where
  "rate_limit_message svc waitTime =
     ''Rate limit exceeded for '' @ svc @ ''. Try again in '' @ number_text waitTime @ '' seconds.''"

text \<open>
  \<open>resetTime ? Math.ceil((resetTime - Date.now()) / 1000) : 60\<close>: the test is one of
  truthiness, so \<open>null\<close> and the number 0 both take the second branch.
\<close>

definition wait_seconds :: "int option \<Rightarrow> int \<Rightarrow> int" where
  "wait_seconds resetTime now =
     (case resetTime of
        None \<Rightarrow> 60
      | Some r \<Rightarrow> if r = 0 then 60 else math_ceil_quot (r - now) 1000)"

text \<open>
  The wrapped operation acts on the world outside the rate limiter (the external service)
  and returns a value or throws. \<open>withRateLimit\<close> reads the clock once inside
  \<open>checkLimit\<close> (\<open>now\<close>) and once more when it computes the wait time (\<open>now'\<close>). The
  calls are taken one after the other: nothing else touches the limiter between the check
  and the reading of the reset time.
\<close>

definition withRateLimit ::
    "RateLimiter \<Rightarrow> string \<Rightarrow> string \<Rightarrow> int \<Rightarrow> int \<Rightarrow> ('w \<Rightarrow> (error + 'a) \<times> 'w) \<Rightarrow> 'w \<Rightarrow>
     (error + 'a) \<times> RateLimiter \<times> 'w" where
  "withRateLimit rl svc ident now now' operation world =
     (case checkLimit rl svc ident now of
        Inl e \<Rightarrow> (Inl e, rl, world)
      | Inr (allowed, rl') \<Rightarrow>
          if \<not> allowed then
            (case getResetTime rl' svc ident of
               Inl e \<Rightarrow> (Inl e, rl', world)
             | Inr resetTime \<Rightarrow>
                 (Inl (Error (rate_limit_message svc (wait_seconds resetTime now'))), rl', world))
          else (case operation world of (result, world') \<Rightarrow> (result, rl', world')))"

subsection \<open>Sequences of calls\<close>

text \<open>
  The limiter is a module-level singleton; the routes call \<open>checkLimit\<close> through
  \<open>withRateLimit\<close>, a timer calls \<open>cleanup\<close>. A call that throws leaves the state as it
  was (\<open>checkLimit\<close>) or as the loop left it (\<open>cleanup\<close>).
\<close>

datatype call = CheckLimit string string int | Cleanup int

fun apply_call :: "RateLimiter \<Rightarrow> call \<Rightarrow> RateLimiter" where
  "apply_call rl (CheckLimit svc ident now) =
     (case checkLimit rl svc ident now of Inl e \<Rightarrow> rl | Inr (allowed, rl') \<Rightarrow> rl')"
| "apply_call rl (Cleanup now) = snd (cleanup rl now)"

definition run :: "RateLimiter \<Rightarrow> call list \<Rightarrow> RateLimiter" where
  "run rl calls = foldl apply_call rl calls"

text \<open>
  A call is governed by \<open>config\<close> on \<open>key\<close> when, if it is a check of that key, it is made
  under that configuration. Two services share a key only when a service name has a
  colon in it; no service of the routes has.
\<close>

fun governed_by :: "RateLimiter \<Rightarrow> string \<Rightarrow> RateLimitConfig \<Rightarrow> call \<Rightarrow> bool" where
  "governed_by rl key config (CheckLimit svc ident now) =
     (make_key svc ident = key \<longrightarrow> getConfig rl svc = Some config)"
| "governed_by rl key config (Cleanup now) = True"

text \<open>A call whose service name has no colon in it.\<close>

fun colon_free_call :: "call \<Rightarrow> bool" where
  "colon_free_call (CheckLimit svc ident now) = (CHR '':'' \<notin> set svc)"
| "colon_free_call (Cleanup now) = True"

definition capacity_inv :: "RateLimiter \<Rightarrow> string \<Rightarrow> int \<Rightarrow> bool" where
  "capacity_inv rl key cap \<longleftrightarrow>
     distinct (map fst (requests rl)) \<and> int (length (window_of rl key)) \<le> cap"

text \<open>
  The clock reading of a call, and what a non-decreasing clock maintains: every window
  holds its records in the order of their timestamps, none later than the latest reading.
\<close>

fun call_time :: "call \<Rightarrow> int" where
  "call_time (CheckLimit svc ident now) = now"
| "call_time (Cleanup now) = now"

definition ordered_inv :: "RateLimiter \<Rightarrow> int \<Rightarrow> bool" where
  "ordered_inv rl latest \<longleftrightarrow>
     distinct (map fst (requests rl)) \<and>
     (\<forall>key. sorted (map timestamp (window_of rl key)) \<and>
            list_all (\<lambda>r. timestamp r \<le> latest) (window_of rl key))"

text \<open>What one round of \<open>cleanup\<close> leaves under a key that held \<open>rs\<close>.\<close>

definition cleaned ::
    "int \<Rightarrow> (string \<times> RateLimitConfig) list \<Rightarrow> string \<Rightarrow> RequestRecord list \<Rightarrow>
     RequestRecord list option" where
  "cleaned now cfgs key rs =
     (case lookupConfig cfgs (service_of_key key) of
        None \<Rightarrow> None
      | Some config \<Rightarrow>
          if filter (unexpired now config) rs = [] then None
          else Some (filter (unexpired now config) rs))"

text \<open>Limiter states used as concrete instances.\<close>

definition small_config :: RateLimitConfig where
  "small_config = \<lparr>maxRequests = 2, windowMs = 60 * 1000, service = ''default''\<rparr>"

definition small_limiter :: RateLimiter where
  "small_limiter = \<lparr>requests = [], configs = AList.update ''default'' small_config []\<rparr>"

definition busy_limiter :: RateLimiter where
  "busy_limiter =
     \<lparr>requests =
        [(''api:10.0.0.1'', [\<lparr>timestamp = 500, count = 1\<rparr>, \<lparr>timestamp = 50000, count = 1\<rparr>]),
         (''api:10.0.0.2'', [\<lparr>timestamp = 700, count = 1\<rparr>])],
      configs = AList.update ''default'' small_config []\<rparr>"

definition after_admission :: RateLimiter where
  "after_admission =
     \<lparr>requests =
        [(''api:10.0.0.1'', [\<lparr>timestamp = 50000, count = 1\<rparr>, \<lparr>timestamp = 60800, count = 1\<rparr>]),
         (''api:10.0.0.2'', [\<lparr>timestamp = 700, count = 1\<rparr>])],
      configs = AList.update ''default'' small_config []\<rparr>"

definition succeeding_operation :: "nat \<Rightarrow> (error + string) \<times> nat" where
  "succeeding_operation calls = (Inr ''analysis'', Suc calls)"

definition failing_operation :: "nat \<Rightarrow> (error + string) \<times> nat" where
  "failing_operation calls = (Inl (Error ''upstream failure''), Suc calls)"

section \<open>JavaScript values\<close>

text \<open>
  What \<open>JSON.parse\<close> and \<open>request.json()\<close> return, and \<open>undefined\<close> for a property that
  is not there. Numbers are the finite ones, as rationals; an object is the list of its
  properties. Strings are lists of characters; \<open>substring\<close> and \<open>length\<close> count list
  elements.
\<close>

datatype jsvalue =
    JUndefined
  | JNull
  | JBool bool
  | JNum rat
  | JStr string
  | JArr "jsvalue list"
  | JObj "(string \<times> jsvalue) list"

text \<open>\<open>!v\<close> is the negation of this.\<close>

fun truthy :: "jsvalue \<Rightarrow> bool" where
  "truthy JUndefined = False"
| "truthy JNull = False"
| "truthy (JBool b) = b"
| "truthy (JNum n) = (n \<noteq> 0)"
| "truthy (JStr s) = (s \<noteq> [])"
| "truthy (JArr vs) = True"
| "truthy (JObj ps) = True"

text \<open>
  \<open>obj.name\<close> on an object that \<open>JSON.parse\<close> built, for a name that no prototype
  defines (all the names read below are such).
\<close>

definition property :: "(string \<times> jsvalue) list \<Rightarrow> string \<Rightarrow> jsvalue" where
  "property ps name = (case map_of ps name of Some v \<Rightarrow> v | None \<Rightarrow> JUndefined)"

text \<open>
  \<open>v.name\<close> on any value, for such a name: reading a property of \<open>null\<close> or \<open>undefined\<close>
  throws a TypeError, a primitive or an array has no such property.
\<close>

definition get_prop :: "jsvalue \<Rightarrow> string \<Rightarrow> error + jsvalue" where
  "get_prop v name =
     (case v of
        JObj ps \<Rightarrow> Inr (property ps name)
      | JNull \<Rightarrow>
          Inl (Error (''Cannot read properties of null (reading '' @
                      [CHR 0x27] @ name @ [CHR 0x27] @ '')''))
      | JUndefined \<Rightarrow>
          Inl (Error (''Cannot read properties of undefined (reading '' @
                      [CHR 0x27] @ name @ [CHR 0x27] @ '')''))
      | _ \<Rightarrow> Inr JUndefined)"

definition is_array :: "jsvalue \<Rightarrow> bool" where
  "is_array v = (case v of JArr vs \<Rightarrow> True | _ \<Rightarrow> False)"

definition is_string :: "jsvalue \<Rightarrow> bool" where
  "is_string v = (case v of JStr s \<Rightarrow> True | _ \<Rightarrow> False)"

text \<open>
  \<open>String.prototype.trim\<close>: white space and line terminators go from both ends. Of the
  characters it removes, the model has those below 256.
\<close>

definition js_whitespace :: "char \<Rightarrow> bool" where
  "js_whitespace c \<longleftrightarrow> of_char c \<in> {9, 10, 11, 12, 13, 32, 160 :: nat}"

definition trim :: "string \<Rightarrow> string" where
  "trim s = rev (dropWhile js_whitespace (rev (dropWhile js_whitespace s)))"

text \<open>
  \<open>content.match(/\{[\s\S]*\}/)\<close>: the match starts at the first opening brace and, the
  star being greedy, ends at the last closing brace after it; there is none when no
  closing brace follows the first opening one.
\<close>

definition json_match :: "string \<Rightarrow> string option" where
  "json_match content =
     (let from_brace = dropWhile (\<lambda>c. c \<noteq> CHR ''{'') content;
          matched = rev (dropWhile (\<lambda>c. c \<noteq> CHR ''}'') (rev from_brace))
      in if matched = [] then None else Some matched)"

text \<open>
  \<open>s.replace(/<[^>]*>/g, '')\<close>: every stretch from a \<open><\<close> to the next \<open>>\<close> goes; a \<open><\<close>
  with no \<open>>\<close> after it stays.
\<close>

function strip_tags :: "string \<Rightarrow> string" where
  "strip_tags [] = []"
| "strip_tags (c # cs) =
     (if c = CHR ''<'' \<and> CHR ''>'' \<in> set cs
      then strip_tags (tl (dropWhile (\<lambda>d. d \<noteq> CHR ''>'') cs))
      else c # strip_tags cs)"
  by pat_completeness auto
termination
proof (relation "measure length")
  show "wf (measure length)" by simp
next
  fix c :: char and cs :: string
  have "length (dropWhile (\<lambda>d. d \<noteq> CHR ''>'') cs) \<le> length cs"
    by (rule length_dropWhile_le)
  then show "(tl (dropWhile (\<lambda>d. d \<noteq> CHR ''>'') cs), c # cs) \<in> measure length"
    by simp
next
  fix c :: char and cs :: string
  show "(cs, c # cs) \<in> measure length" by simp
qed

section \<open>Parsing the responses of the external models\<close>

text \<open>
  \<open>JSON.parse\<close> is the runtime's; it is an argument of the two parsers below, so that
  what is proved holds whatever it returns. The text handed to it starts with an opening
  brace, for which it returns an object (the list of its properties) or throws.
\<close>

type_synonym json_parser = "string \<Rightarrow> error + (string \<times> jsvalue) list"

subsection \<open>The writing service (src/lib/claude.ts)\<close>

datatype content_block = TextBlock string | OtherBlock string

datatype message_content = ContentBlocks "content_block list" | ContentString string | ContentOther

fun is_text_block :: "content_block \<Rightarrow> bool" where
  "is_text_block (TextBlock t) = True"
| "is_text_block (OtherBlock ty) = False"

fun block_text :: "content_block \<Rightarrow> string" where
  "block_text (TextBlock t) = t"
| "block_text (OtherBlock ty) = ''''"

definition response_text :: "message_content \<Rightarrow> string" where
  "response_text response_content =
     (case response_content of
        ContentBlocks blocks \<Rightarrow> concat (map block_text (filter is_text_block blocks))
      | ContentString s \<Rightarrow> s
      | ContentOther \<Rightarrow> '''')"

definition fallback_blog :: jsvalue where
  "fallback_blog =
     JObj [(''title'', JStr ''Blog Post Generation Failed''),
           (''content'', JStr
              ''<p>There was an error generating the blog post. Please try again with different inputs.</p>''),
           (''metaDescription'', JStr ''Blog post generation encountered an error. Please retry.''),
           (''tags'', JArr [JStr ''error'', JStr ''retry'']),
           (''seoScore'', JNum 0),
           (''excerpt'', JStr ''Blog post generation failed. Please try again.'')]"

text \<open>\<open>a || b\<close> on values.\<close>

definition or_else :: "jsvalue \<Rightarrow> jsvalue \<Rightarrow> jsvalue" where
  "or_else a b = (if truthy a then a else b)"

text \<open>The body of the \<open>try\<close> block of \<open>parseBlogResponse\<close>.\<close>

definition parseBlogResponse_try :: "json_parser \<Rightarrow> message_content \<Rightarrow> error + jsvalue" where
  "parseBlogResponse_try JSON_parse response_content =
     (case json_match (response_text response_content) of
        None \<Rightarrow> Inl (Error ''No JSON found in Claude response'')
      | Some jsonMatch \<Rightarrow>
          (case JSON_parse jsonMatch of
             Inl e \<Rightarrow> Inl e
           | Inr parsed \<Rightarrow>
               if \<not> truthy (property parsed ''title'') \<or> \<not> truthy (property parsed ''content'') \<or>
                  \<not> truthy (property parsed ''metaDescription'')
               then Inl (Error ''Missing required fields in Claude response'')
               else
                 let parsed = AList.update ''tags'' (or_else (property parsed ''tags'') (JArr [])) parsed;
                     parsed = AList.update ''seoScore''
                                (or_else (property parsed ''seoScore'') (JNum 75)) parsed
                 in if truthy (property parsed ''excerpt'')
                    then Inr (JObj (AList.update ''excerpt'' (property parsed ''excerpt'') parsed))
                    else
                      (case property parsed ''content'' of
                         JStr c \<Rightarrow>
                           Inr (JObj (AList.update ''excerpt''
                                  (JStr (strip_tags (take 200 c) @ ''...'')) parsed))
                       | _ \<Rightarrow> Inl (Error ''parsed.content.substring is not a function''))))"

text \<open>The \<open>catch\<close> block logs and returns the fallback post.\<close>

definition parseBlogResponse :: "json_parser \<Rightarrow> message_content \<Rightarrow> error + jsvalue" where
  "parseBlogResponse JSON_parse response_content =
     (case parseBlogResponse_try JSON_parse response_content of
        Inl e \<Rightarrow> Inr fallback_blog
      | Inr blog \<Rightarrow> Inr blog)"

subsection \<open>The research service (the perplexity module, src/unnamed/part_002)\<close>

text \<open>
  A response body: \<open>choices\<close> may be missing, a choice may lack its message and a message
  its content.
\<close>

datatype choice = Choice "string option option"

datatype perplexity_response = PerplexityResponse "choice list option"

text \<open>\<open>response.choices[0]?.message?.content || ''\<close>\<close>

fun analysis_content :: "perplexity_response \<Rightarrow> error + string" where
  "analysis_content (PerplexityResponse None) =
     Inl (Error ''Cannot read properties of undefined (reading 0)'')"
| "analysis_content (PerplexityResponse (Some [])) = Inr ''''"
| "analysis_content (PerplexityResponse (Some (Choice None # rest))) = Inr ''''"
| "analysis_content (PerplexityResponse (Some (Choice (Some None) # rest))) = Inr ''''"
| "analysis_content (PerplexityResponse (Some (Choice (Some (Some c)) # rest))) = Inr c"

definition fallback_analysis :: jsvalue where
  "fallback_analysis =
     JObj [(''keyInsights'', JArr [JStr ''Analysis failed - manual review needed'']),
           (''mainThemes'', JArr [JStr ''General content'']),
           (''currentTrends'', JArr [JStr ''Current industry trends'']),
           (''seoKeywords'', JArr [JStr ''content'', JStr ''blog'', JStr ''article'']),
           (''factualClaims'', JArr [JStr ''Claims need verification'']),
           (''citations'', JArr [JStr ''Manual citation needed''])]"

definition parseAnalysisResponse_try :: "json_parser \<Rightarrow> perplexity_response \<Rightarrow> error + jsvalue" where
  "parseAnalysisResponse_try JSON_parse response =
     (case analysis_content response of
        Inl e \<Rightarrow> Inl e
      | Inr content \<Rightarrow>
          (case json_match content of
             None \<Rightarrow> Inl (Error ''No JSON found in response'')
           | Some jsonMatch \<Rightarrow>
               (case JSON_parse jsonMatch of
                  Inl e \<Rightarrow> Inl e
                | Inr parsed \<Rightarrow>
                    if \<not> truthy (property parsed ''keyInsights'') \<or>
                       \<not> is_array (property parsed ''keyInsights'')
                    then Inl (Error ''Invalid keyInsights in response'')
                    else Inr (JObj parsed))))"

definition parseAnalysisResponse :: "json_parser \<Rightarrow> perplexity_response \<Rightarrow> error + jsvalue" where
  "parseAnalysisResponse JSON_parse response =
     (case parseAnalysisResponse_try JSON_parse response of
        Inl e \<Rightarrow> Inr fallback_analysis
      | Inr analysis \<Rightarrow> Inr analysis)"

subsection \<open>Responses used as concrete instances\<close>

definition article_text :: string where
  \<open>article_text = ''Here is the post: {"title":"T","content":"<p>Hi</p> there","metaDescription":"M","seoScore":0} Enjoy''\<close>

definition article_json :: string where
  \<open>article_json = ''{"title":"T","content":"<p>Hi</p> there","metaDescription":"M","seoScore":0}''\<close>

definition numeric_json :: string where
  \<open>numeric_json = ''{"title":"T","content":5,"metaDescription":"M","seoScore":0}''\<close>

definition untitled_json :: string where
  \<open>untitled_json = ''{"content":"c","metaDescription":"M"}''\<close>

text \<open>A stand-in for \<open>JSON.parse\<close> that knows the example texts and throws on every other.\<close>

definition example_parse :: json_parser where
  "example_parse text =
     (if text = article_json
      then Inr [(''title'', JStr ''T''), (''content'', JStr ''<p>Hi</p> there''),
                (''metaDescription'', JStr ''M''), (''seoScore'', JNum 0)]
      else if text = numeric_json
      then Inr [(''title'', JStr ''T''), (''content'', JNum 5),
                (''metaDescription'', JStr ''M''), (''seoScore'', JNum 0)]
      else if text = untitled_json
      then Inr [(''content'', JStr ''c''), (''metaDescription'', JStr ''M'')]
      else Inl (Error ''Unexpected token''))"

section \<open>Error translation and the analyze route\<close>

subsection \<open>src/lib/error-handler.ts\<close>

text \<open>
  An \<open>APIError\<close> is its message, status code and service. \<open>handleAPIError\<close> returns one
  for whatever was thrown: an \<open>APIError\<close> as it is, an error with a \<open>response\<close> by its
  status, an error with a \<open>request\<close> as 503, anything else as 500. The field \<open>retry_after\<close>
  is \<open>parseInt\<close> of the header when there is one and it is a number.
\<close>

definition RateLimitError :: "string \<Rightarrow> int option \<Rightarrow> string \<times> int \<times> string" where
  "RateLimitError svc retryAfter =
     (''Rate limit exceeded for '' @ svc @
        (case retryAfter of
           None \<Rightarrow> ''''
         | Some n \<Rightarrow> if n = 0 then '''' else ''. Retry after '' @ number_text n @ ''s''),
      429, svc)"

fun handleAPIError :: "error \<Rightarrow> string \<Rightarrow> string \<times> int \<times> string" where
  "handleAPIError (APIError msg code svc') svc = (msg, code, svc')"
| "handleAPIError (ResponseError msg resp) svc =
     (if resp_status resp = 429 then RateLimitError svc (retry_after resp)
      else (svc @ '' API error: '' @
              (case data_message resp of
                 None \<Rightarrow> msg
               | Some m \<Rightarrow> if m = [] then msg else m),
            resp_status resp, svc))"
| "handleAPIError (RequestError msg) svc = (''Network error connecting to '' @ svc, 503, svc)"
| "handleAPIError (Error msg) svc = (''Unexpected error in '' @ svc @ '': '' @ msg, 500, svc)"

subsection \<open>src/app/api/analyze/route.ts\<close>

text \<open>
  A response is its HTTP status and its JSON body; the time stamps of the bodies are left
  out. \<open>createErrorResponse\<close> copies message, service and status code of the error it is
  given; a plain \<open>Error\<close> has no service and no status code.
\<close>

datatype 'a response_body =
    ErrorBody string "string option" "int option"
  | SuccessBody 'a

record 'a http_response =
  http_status :: int
  http_body :: "'a response_body"

definition array_length :: "jsvalue \<Rightarrow> nat" where
  "array_length v = (case v of JArr vs \<Rightarrow> length vs | _ \<Rightarrow> 0)"

definition string_of :: "jsvalue \<Rightarrow> string" where
  "string_of v = (case v of JStr s \<Rightarrow> s | _ \<Rightarrow> [])"

text \<open>
  \<open>request.headers.get('x-forwarded-for') || request.headers.get('x-real-ip') || 'unknown'\<close>
\<close>

definition client_ip :: "string option \<Rightarrow> string option \<Rightarrow> string" where
  "client_ip forwarded_for real_ip =
     (case forwarded_for of
        Some a \<Rightarrow> if a \<noteq> [] then a
                  else (case real_ip of Some b \<Rightarrow> if b \<noteq> [] then b else ''unknown''
                        | None \<Rightarrow> ''unknown'')
      | None \<Rightarrow> (case real_ip of Some b \<Rightarrow> if b \<noteq> [] then b else ''unknown''
                  | None \<Rightarrow> ''unknown''))"

text \<open>
  The \<open>try\<close> block of \<open>POST\<close>. \<open>request_json\<close> is what \<open>await request.json()\<close> gives: the
  parsed body, or the error thrown for a body that is not JSON. \<open>analyze\<close> stands for
  \<open>analyzeSourcesWithPerplexity\<close>, which works on the sources and calls the research
  service: it acts on the world outside and returns the analysis or throws.
\<close>

definition analyze_POST_try ::
    "RateLimiter \<Rightarrow> error + jsvalue \<Rightarrow> string option \<Rightarrow> string option \<Rightarrow> int \<Rightarrow> int \<Rightarrow>
     (jsvalue \<Rightarrow> 'w \<Rightarrow> (error + 'a) \<times> 'w) \<Rightarrow> 'w \<Rightarrow>
     (error + 'a http_response) \<times> RateLimiter \<times> 'w" where
  "analyze_POST_try rl request_json forwarded_for real_ip now now' analyze world =
     (case request_json of
        Inl e \<Rightarrow> (Inl e, rl, world)
      | Inr body \<Rightarrow>
          (case get_prop body ''sources'' of
             Inl e \<Rightarrow> (Inl e, rl, world)
           | Inr body_sources \<Rightarrow>
               if \<not> truthy body_sources \<or> \<not> is_array body_sources \<or> array_length body_sources = 0
               then (Inr \<lparr>http_status = 400,
                          http_body = ErrorBody ''Sources array is required and cannot be empty''
                                        None None\<rparr>, rl, world)
               else
                 (case get_prop body ''topic'' of
                    Inl e \<Rightarrow> (Inl e, rl, world)
                  | Inr body_topic \<Rightarrow>
                      if \<not> truthy body_topic \<or> \<not> is_string body_topic \<or>
                         length (trim (string_of body_topic)) = 0
                      then (Inr \<lparr>http_status = 400,
                                 http_body = ErrorBody ''Topic is required and cannot be empty''
                                               None None\<rparr>, rl, world)
                      else
                        (case withRateLimit rl ''perplexity'' (client_ip forwarded_for real_ip)
                                now now' (analyze body) world of
                           (Inl e, rl', world') \<Rightarrow> (Inl e, rl', world')
                         | (Inr result, rl', world') \<Rightarrow>
                             (Inr \<lparr>http_status = 200, http_body = SuccessBody result\<rparr>,
                              rl', world')))))"

text \<open>The \<open>catch\<close> block turns what was thrown into a response with the error's status.\<close>

definition analyze_POST ::
    "RateLimiter \<Rightarrow> error + jsvalue \<Rightarrow> string option \<Rightarrow> string option \<Rightarrow> int \<Rightarrow> int \<Rightarrow>
     (jsvalue \<Rightarrow> 'w \<Rightarrow> (error + 'a) \<times> 'w) \<Rightarrow> 'w \<Rightarrow>
     'a http_response \<times> RateLimiter \<times> 'w" where
  "analyze_POST rl request_json forwarded_for real_ip now now' analyze world =
     (case analyze_POST_try rl request_json forwarded_for real_ip now now' analyze world of
        (Inr response, rl', world') \<Rightarrow> (response, rl', world')
      | (Inl e, rl', world') \<Rightarrow>
          (case handleAPIError e ''analyze-api'' of
             (msg, code, svc) \<Rightarrow>
               (\<lparr>http_status = code, http_body = ErrorBody msg (Some svc) (Some code)\<rparr>,
                rl', world')))"

text \<open>Request bodies and a stand-in for the analysis, as concrete instances.\<close>

definition good_body :: jsvalue where
  "good_body = JObj [(''sources'', JArr [JObj [(''type'', JStr ''text''), (''content'', JStr ''notes'')]]),
                     (''topic'', JStr ''rate limiting'')]"

definition blank_topic_body :: jsvalue where
  "blank_topic_body = JObj [(''sources'', JArr [JStr ''a'']), (''topic'', JStr ''   '')]"

definition no_sources_body :: jsvalue where
  "no_sources_body = JObj [(''topic'', JStr ''rate limiting'')]"

definition counting_analysis :: "jsvalue \<Rightarrow> nat \<Rightarrow> (error + string) \<times> nat" where
  "counting_analysis body calls = (Inr ''analysis'', Suc calls)"

section \<open>The two-step workflow of the editor\<close>

subsection \<open>The workflow store\<close>

text \<open>
  The store module \<open>lib/workflow-store\<close> is not among the sources; the components that
  use it are. What they read and write fixes the fields of its state and the values of
  \<open>status\<close> and \<open>currentStep\<close>.
\<close>

datatype workflow_status = Idle | Analyzing | Generating | StatusCompleted | StatusError

datatype workflow_step = StepSources | StepAnalysis | StepGeneration | StepCompleted

text \<open>
  Modelled from the spec: the state of the missing store \<open>lib/workflow-store\<close>, "UI state
  management for a multi-step form wizard" over the pipeline "research then write". Its
  fields are those the editor takes from \<open>useWorkflowStore()\<close>; the word count, tone,
  audience and custom prompt, which no guard reads, are left out.
\<close>

record WorkflowState =
  status :: workflow_status
  currentStep :: workflow_step
  progress :: int
  sources :: "string list"
  topic :: string
  sourceAnalysis :: jsvalue
  blogGeneration :: jsvalue
  analysisError :: "string option"
  generationError :: "string option"

text \<open>
  Modelled from the spec: the initial state of the missing store \<open>lib/workflow-store\<close>. The
  wizard starts idle at its first step, with no sources, no research result, no article
  and no error. Its setters (\<open>setStatus\<close>, \<open>setCurrentStep\<close>, \<open>setProgress\<close>,
  \<open>setSourceAnalysis\<close>, \<open>setBlogGeneration\<close>, \<open>setAnalysisError\<close>, \<open>setGenerationError\<close>,
  \<open>setInputs\<close>), missing with it, each assign their field, as the setters of the sibling
  WordPress store do; they are the record updates in the handlers below.
\<close>

definition initialWorkflow :: WorkflowState where
  "initialWorkflow =
     \<lparr>status = Idle, currentStep = StepSources, progress = 0, sources = [], topic = [],
      sourceAnalysis = JNull, blogGeneration = JNull,
      analysisError = None, generationError = None\<rparr>"

subsection \<open>The handlers of the editor (src/components/ai-editor.tsx)\<close>

text \<open>\<open>!analysisError\<close>: \<open>null\<close> and the empty string are falsy.\<close>

definition no_message :: "string option \<Rightarrow> bool" where
  "no_message e = (case e of None \<Rightarrow> True | Some m \<Rightarrow> m = [])"

definition canAnalyze :: "WorkflowState \<Rightarrow> bool" where
  "canAnalyze st \<longleftrightarrow> length (sources st) > 0 \<and> length (trim (topic st)) > 0 \<and> status st = Idle"

definition canGenerate :: "WorkflowState \<Rightarrow> bool" where
  "canGenerate st \<longleftrightarrow> truthy (sourceAnalysis st) \<and> no_message (analysisError st) \<and> status st = Idle"

text \<open>
  Each handler runs up to its \<open>await\<close>, and goes on when the route has answered: with the
  result of the route, or into its \<open>catch\<close> block with a message. While a handler waits,
  the status is neither idle nor changed by anything else, so no second handler starts;
  the answer of a route is an event of its own, taken in the status its handler set.
\<close>

datatype workflow_event =
    SetInputs "string list" string
  | StartAnalysis
  | AnalysisAnswered "string + jsvalue"
  | StartGeneration
  | GenerationAnswered "string + jsvalue"

fun apply_event :: "WorkflowState \<Rightarrow> workflow_event \<Rightarrow> WorkflowState" where
  "apply_event st (SetInputs newSources newTopic) = st\<lparr>sources := newSources, topic := newTopic\<rparr>"
| "apply_event st StartAnalysis =
     (if \<not> canAnalyze st then st
      else st\<lparr>status := Analyzing, currentStep := StepAnalysis, analysisError := None\<rparr>)"
| "apply_event st (AnalysisAnswered answer) =
     (if status st \<noteq> Analyzing then st
      else (case answer of
              Inr analysis \<Rightarrow>
                st\<lparr>sourceAnalysis := analysis, currentStep := StepGeneration, progress := 50,
                   status := Idle\<rparr>
            | Inl message \<Rightarrow> st\<lparr>analysisError := Some message, status := StatusError\<rparr>))"
| "apply_event st StartGeneration =
     (if \<not> canGenerate st \<or> \<not> truthy (sourceAnalysis st) then st
      else st\<lparr>status := Generating, generationError := None\<rparr>)"
| "apply_event st (GenerationAnswered answer) =
     (if status st \<noteq> Generating then st
      else (case answer of
              Inr blog \<Rightarrow>
                st\<lparr>blogGeneration := blog, currentStep := StepCompleted, progress := 100,
                   status := StatusCompleted\<rparr>
            | Inl message \<Rightarrow> st\<lparr>generationError := Some message, status := StatusError\<rparr>))"

definition workflow_after :: "workflow_event list \<Rightarrow> WorkflowState" where
  "workflow_after events = foldl apply_event initialWorkflow events"

subsection \<open>The status card (src/unnamed/part_011)\<close>

definition steps :: "(workflow_step \<times> string) list" where
  "steps = [(StepSources, ''Source Input''), (StepAnalysis, ''Perplexity Analysis''),
            (StepGeneration, ''Claude Generation''), (StepCompleted, ''Ready to Publish'')]"

text \<open>\<open>Array.prototype.findIndex\<close>: the first index whose element passes, or -1.\<close>

fun findIndex :: "('a \<Rightarrow> bool) \<Rightarrow> 'a list \<Rightarrow> int" where
  "findIndex P [] = - 1"
| "findIndex P (x # xs) =
     (if P x then 0 else (let i = findIndex P xs in if i < 0 then - 1 else i + 1))"

definition getCurrentStepIndex :: "WorkflowState \<Rightarrow> int" where
  "getCurrentStepIndex st = findIndex (\<lambda>step. fst step = currentStep st) steps"

definition isActive :: "WorkflowState \<Rightarrow> workflow_step \<Rightarrow> bool" where
  "isActive st key \<longleftrightarrow> key = currentStep st"

definition isCompleted :: "WorkflowState \<Rightarrow> int \<Rightarrow> bool" where
  "isCompleted st index \<longleftrightarrow> index < getCurrentStepIndex st \<or> status st = StatusCompleted"

text \<open>The card shows the step "Ready to Publish" as reached: active or completed.\<close>

definition ready_to_publish :: "WorkflowState \<Rightarrow> bool" where
  "ready_to_publish st \<longleftrightarrow>
     isActive st StepCompleted \<or> isCompleted st (findIndex (\<lambda>step. fst step = StepCompleted) steps)"

subsection \<open>The WordPress store (src/unnamed/part_003) and the export\<close>

datatype PublishStatus = PublishIdle | Testing | Publishing | PublishSuccess | PublishError

record WordPressSiteInfo =
  connected :: bool

record WordPressState =
  defaultSite :: "WordPressSiteInfo option"
  customSite :: "WordPressSiteInfo option"
  useCustomSite :: bool
  publishStatus :: PublishStatus

definition getCurrentSite :: "WordPressState \<Rightarrow> WordPressSiteInfo option" where
  "getCurrentSite wp = (if useCustomSite wp then customSite wp else defaultSite wp)"

definition canPublish :: "WordPressState \<Rightarrow> bool" where
  "canPublish wp \<longleftrightarrow>
     (case getCurrentSite wp of None \<Rightarrow> False | Some site \<Rightarrow> connected site = True) \<and>
     publishStatus wp = PublishIdle"

text \<open>
  \<open>handleWordPressExport\<close> of the editor and \<open>publishToWordPress\<close> of the export panel
  (src/components/wordpress-export.tsx, rendered only for an article) go on to
  the publishing route only past both of their guards: an article, and \<open>canPublish()\<close>.
\<close>

definition export_enabled :: "WorkflowState \<Rightarrow> WordPressState \<Rightarrow> bool" where
  "export_enabled st wp \<longleftrightarrow> truthy (blogGeneration st) \<and> canPublish wp"

text \<open>
  Both stages have completed without error: the research route and then the writing route
  have answered with a result, the results are those the store holds, and no error is
  recorded.
\<close>

definition both_stages_succeeded :: "workflow_event list \<Rightarrow> WorkflowState \<Rightarrow> bool" where
  "both_stages_succeeded events st \<longleftrightarrow>
     AnalysisAnswered (Inr (sourceAnalysis st)) \<in> set events \<and>
     GenerationAnswered (Inr (blogGeneration st)) \<in> set events \<and>
     truthy (sourceAnalysis st) \<and>
     analysisError st = None \<and> generationError st = None \<and>
     status st = StatusCompleted \<and> currentStep st = StepCompleted"

text \<open>What every state of the workflow satisfies, with the events that led to it.\<close>

definition workflow_inv :: "workflow_event list \<Rightarrow> WorkflowState \<Rightarrow> bool" where
  "workflow_inv events st \<longleftrightarrow>
     (status st \<noteq> StatusCompleted \<longrightarrow>
        blogGeneration st = JNull \<and> currentStep st \<noteq> StepCompleted) \<and>
     (truthy (sourceAnalysis st) \<longrightarrow> AnalysisAnswered (Inr (sourceAnalysis st)) \<in> set events) \<and>
     (status st \<noteq> StatusError \<longrightarrow> analysisError st = None \<and> generationError st = None) \<and>
     (status st = Generating \<longrightarrow> truthy (sourceAnalysis st)) \<and>
     (status st = StatusCompleted \<longrightarrow> both_stages_succeeded events st)"

text \<open>Sessions used as concrete instances.\<close>

definition connected_wordpress :: WordPressState where
  "connected_wordpress =
     \<lparr>defaultSite = Some \<lparr>connected = True\<rparr>, customSite = None, useCustomSite = False,
      publishStatus = PublishIdle\<rparr>"

definition successful_session :: "workflow_event list" where
  "successful_session =
     [SetInputs [''notes on rate limiting''] ''Rate limiting'', StartAnalysis,
      AnalysisAnswered (Inr (JObj [(''keyInsights'', JArr [JStr ''insight''])])),
      StartGeneration,
      GenerationAnswered (Inr (JObj [(''title'', JStr ''T''), (''content'', JStr ''body'')]))]"

definition failed_session :: "workflow_event list" where
  "failed_session =
     [SetInputs [''notes on rate limiting''] ''Rate limiting'', StartAnalysis,
      AnalysisAnswered (Inr (JObj [(''keyInsights'', JArr [JStr ''insight''])])),
      StartGeneration,
      GenerationAnswered (Inl ''Generated content too short (minimum 200 words required)'')]"

section \<open>Properties of the rate limiter\<close>

subsection \<open>Configuration lookup and a single check\<close>

lemma lookupConfig_default:
  "map_of cfgs ''default'' = Some d \<Longrightarrow> \<exists>config. lookupConfig cfgs svc = Some config"
  by (simp add: lookupConfig_def split: option.splits)

lemma getConfig_default:
  "map_of (configs rl) ''default'' = Some d \<Longrightarrow> \<exists>config. getConfig rl svc = Some config"
  by (simp add: getConfig_def lookupConfig_def split: option.splits)

lemma window_of_update:
  "window_of (rl\<lparr>requests := AList.update key rs (requests rl)\<rparr>) key' =
     (if key' = key then rs else window_of rl key')"
  by (simp add: window_of_def update_conv')

lemma unexpired_iff: "unexpired now config req \<longleftrightarrow> \<not> windowMs config \<le> now - timestamp req"
  by (auto simp: unexpired_def)

lemma checkLimit_Inr_config:
  "checkLimit rl svc ident now = Inr (allowed, rl') \<Longrightarrow>
     \<exists>config. getConfig rl svc = Some config \<and> configs rl' = configs rl"
  by (auto simp: checkLimit_def Let_def split: option.splits if_splits)

lemma service_of_make_key:
  "CHR '':'' \<notin> set svc \<Longrightarrow> service_of_key (make_key svc ident) = svc"
  by (induction svc) (auto simp: service_of_key_def make_key_def)

text \<open>
  With service names free of colons the key determines the service, and every check of a
  key runs under the configuration of that service.
\<close>

lemma make_key_service_inj:
  assumes "CHR '':'' \<notin> set svc" and "CHR '':'' \<notin> set svc'"
    and "make_key svc ident = make_key svc' ident'"
  shows "svc = svc'"
  using assms service_of_make_key [of svc ident] service_of_make_key [of svc' ident']
  by simp

lemma colon_free_governed:
  assumes "CHR '':'' \<notin> set svc" and "getConfig rl svc = Some config"
    and "list_all colon_free_call calls"
  shows "list_all (governed_by rl (make_key svc ident) config) calls"
  using assms(3)
proof (induction calls)
  case Nil
  then show ?case by simp
next
  case (Cons c calls)
  then show ?case
    using assms(1,2) by (cases c) (auto dest: make_key_service_inj)
qed

text \<open>The concrete limiter states.\<close>

lemma small_default: "map_of (configs small_limiter) ''default'' = Some small_config"
  by (simp add: small_limiter_def)

lemma small_config_api: "getConfig small_limiter ''api'' = Some small_config"
  by (simp add: getConfig_def lookupConfig_def small_limiter_def)

lemma busy_default: "map_of (configs busy_limiter) ''default'' = Some small_config"
  by (simp add: busy_limiter_def)

lemma busy_config: "getConfig busy_limiter ''api'' = Some small_config"
  by (simp add: getConfig_def lookupConfig_def busy_limiter_def)

lemma busy_refuses: "checkLimit busy_limiter ''api'' ''10.0.0.1'' 50500 = Inr (False, busy_limiter)"
  by code_simp

lemma busy_admits: "checkLimit busy_limiter ''api'' ''10.0.0.1'' 60800 = Inr (True, after_admission)"
  by code_simp

lemma number_text_10: "number_text 10 = ''10''"
  by code_simp

text \<open>
  C2. Every call of \<open>checkLimit\<close> first discards from the key's window all stored
  timestamps \<open>t\<close> with \<open>now - t \<ge> windowMs\<close>. When the entries that remain number at least
  \<open>maxRequests\<close> it returns false and stores the pruned list alone; otherwise it appends one
  record with the current timestamp and returns true. No other key and no configuration
  changes.
\<close>

theorem checkLimit_prunes_then_decides:
  assumes cfg: "getConfig rl svc = Some config"
  shows "\<exists>allowed rl'.
           checkLimit rl svc ident now = Inr (allowed, rl') \<and>
           (allowed \<longleftrightarrow>
              \<not> maxRequests config \<le>
                int (length (filter (\<lambda>r. \<not> windowMs config \<le> now - timestamp r)
                               (window_of rl (make_key svc ident))))) \<and>
           map_of (requests rl') (make_key svc ident) =
             Some (filter (\<lambda>r. \<not> windowMs config \<le> now - timestamp r)
                     (window_of rl (make_key svc ident)) @
                   (if allowed then [\<lparr>timestamp = now, count = 1\<rparr>] else [])) \<and>
           (\<forall>key. key \<noteq> make_key svc ident \<longrightarrow>
                  map_of (requests rl') key = map_of (requests rl) key) \<and>
           configs rl' = configs rl"
  using cfg
  by (simp add: checkLimit_def Let_def update_conv' unexpired_iff [abs_def])

theorem checkLimit_prunes_then_decides_witness:
  "getConfig busy_limiter ''api'' = Some small_config \<and>
   (\<exists>rl'. checkLimit busy_limiter ''api'' ''10.0.0.1'' 60500 = Inr (True, rl') \<and>
      map_of (requests rl') ''api:10.0.0.1'' =
        Some [\<lparr>timestamp = 50000, count = 1\<rparr>, \<lparr>timestamp = 60500, count = 1\<rparr>] \<and>
      map_of (requests rl') ''api:10.0.0.2'' = Some [\<lparr>timestamp = 700, count = 1\<rparr>])"
  using checkLimit_prunes_then_decides [OF busy_config, of "''10.0.0.1''" 60500] busy_config
  by (auto simp: make_key_def window_of_def busy_limiter_def small_config_def)

subsection \<open>Cleanup\<close>

lemma cleanup_entry_default:
  assumes "map_of cfgs ''default'' = Some d"
  shows "\<exists>table'. cleanup_entry now cfgs table (key, rs) = Inr table' \<and>
           map_of table' = (map_of table)(key := cleaned now cfgs key rs) \<and>
           (distinct (map fst table) \<longrightarrow> distinct (map fst table'))"
proof -
  obtain config where c: "lookupConfig cfgs (service_of_key key) = Some config"
    using lookupConfig_default [OF assms] by blast
  show ?thesis
    by (simp add: cleanup_entry_def c cleaned_def Let_def update_conv' delete_conv'
        distinct_update distinct_delete)
qed

lemma cleanup_loop_default:
  assumes "map_of cfgs ''default'' = Some d"
  shows "distinct (map fst es) \<Longrightarrow>
         \<exists>table'. cleanup_loop now cfgs table es = (None, table') \<and>
           (\<forall>k. map_of table' k =
                  (case map_of es k of None \<Rightarrow> map_of table k | Some rs \<Rightarrow> cleaned now cfgs k rs)) \<and>
           (distinct (map fst table) \<longrightarrow> distinct (map fst table'))"
proof (induction es arbitrary: table)
  case Nil
  then show ?case by simp
next
  case (Cons entry es)
  obtain key rs where entry: "entry = (key, rs)" by (cases entry)
  from Cons.prems entry have fresh: "map_of es key = None" and dist: "distinct (map fst es)"
    by (auto simp: map_of_eq_None_iff)
  obtain table1 where t1: "cleanup_entry now cfgs table (key, rs) = Inr table1"
      "map_of table1 = (map_of table)(key := cleaned now cfgs key rs)"
      "distinct (map fst table) \<longrightarrow> distinct (map fst table1)"
    using cleanup_entry_default [OF assms] by blast
  obtain table' where t': "cleanup_loop now cfgs table1 es = (None, table')"
      "\<forall>k. map_of table' k =
              (case map_of es k of None \<Rightarrow> map_of table1 k | Some rs \<Rightarrow> cleaned now cfgs k rs)"
      "distinct (map fst table1) \<longrightarrow> distinct (map fst table')"
    using Cons.IH [OF dist] by blast
  have "cleanup_loop now cfgs table (entry # es) = (None, table')"
    by (simp add: entry t1(1) t'(1))
  moreover have "map_of table' k =
      (case map_of (entry # es) k of None \<Rightarrow> map_of table k | Some rs \<Rightarrow> cleaned now cfgs k rs)" for k
    using t'(2) t1(2) fresh by (auto simp: entry split: option.splits)
  moreover have "distinct (map fst table) \<longrightarrow> distinct (map fst table')"
    using t1(3) t'(3) by blast
  ultimately show ?case by blast
qed

lemma cleanup_default:
  assumes "map_of (configs rl) ''default'' = Some d" and "distinct (map fst (requests rl))"
  shows "\<exists>rl'. cleanup rl now = (None, rl') \<and> configs rl' = configs rl \<and>
           distinct (map fst (requests rl')) \<and>
           (\<forall>k. map_of (requests rl') k =
                  (case map_of (requests rl) k of None \<Rightarrow> None
                   | Some rs \<Rightarrow> cleaned now (configs rl) k rs))"
proof -
  obtain table' where t': "cleanup_loop now (configs rl) (requests rl) (requests rl) = (None, table')"
      "\<forall>k. map_of table' k =
              (case map_of (requests rl) k of None \<Rightarrow> map_of (requests rl) k
               | Some rs \<Rightarrow> cleaned now (configs rl) k rs)"
      "distinct (map fst (requests rl)) \<longrightarrow> distinct (map fst table')"
    using cleanup_loop_default [OF assms(1) assms(2)] by blast
  show ?thesis
    using t' assms(2) by (auto simp: cleanup_def split: option.splits)
qed

lemma sorted_filter_suffix:
  "sorted (map timestamp rs) \<Longrightarrow> suffix (filter (unexpired now config) rs) rs"
proof (induction rs)
  case Nil
  then show ?case by simp
next
  case (Cons r rs)
  show ?case
  proof (cases "unexpired now config r")
    case True
    with Cons.prems have "\<forall>x\<in>set rs. unexpired now config x"
      by (auto simp: unexpired_def)
    then have "filter (unexpired now config) rs = rs" by simp
    with True show ?thesis by simp
  next
    case False
    with Cons show ?thesis by (simp add: suffix_ConsI)
  qed
qed

lemma length_cleaned:
  "cleaned now cfgs k rs = Some v \<Longrightarrow> length v \<le> length rs"
  by (auto simp: cleaned_def split: option.splits if_splits)

text \<open>
  C8. \<open>cleanup\<close> deletes exactly the keys whose recorded timestamps have all aged past the
  window of their service (the service being the part of the key before its first colon),
  replaces the list of every other key by its unexpired entries, which are a suffix of the
  list when the timestamps were recorded in non-decreasing order, and leaves the
  configuration table as it was. The table holds each key once, and the constructor's
  default configuration is present.
\<close>

theorem cleanup_spec:
  assumes d: "map_of (configs rl) ''default'' = Some d"
    and dist: "distinct (map fst (requests rl))"
  shows "\<exists>rl'. cleanup rl now = (None, rl') \<and> configs rl' = configs rl \<and>
           (\<forall>key config. getConfig rl (service_of_key key) = Some config \<longrightarrow>
              map_of (requests rl') key =
                (case map_of (requests rl) key of
                   None \<Rightarrow> None
                 | Some rs \<Rightarrow>
                     if \<forall>r\<in>set rs. windowMs config \<le> now - timestamp r then None
                     else Some (filter (\<lambda>r. now - timestamp r < windowMs config) rs)) \<and>
              (sorted (map timestamp (window_of rl key)) \<longrightarrow>
                 suffix (window_of rl' key) (window_of rl key)))"
proof -
  obtain rl' where rl': "cleanup rl now = (None, rl')" "configs rl' = configs rl"
      "\<forall>k. map_of (requests rl') k =
              (case map_of (requests rl) k of None \<Rightarrow> None
               | Some rs \<Rightarrow> cleaned now (configs rl) k rs)"
    using cleanup_default [OF d dist] by blast
  have main: "map_of (requests rl') key =
                (case map_of (requests rl) key of
                   None \<Rightarrow> None
                 | Some rs \<Rightarrow>
                     if \<forall>r\<in>set rs. windowMs config \<le> now - timestamp r then None
                     else Some (filter (\<lambda>r. now - timestamp r < windowMs config) rs))"
    if c: "getConfig rl (service_of_key key) = Some config" for key config
  proof (cases "map_of (requests rl) key")
    case None
    with rl'(3) show ?thesis by simp
  next
    case (Some rs)
    have "cleaned now (configs rl) key rs =
            (if \<forall>r\<in>set rs. windowMs config \<le> now - timestamp r then None
             else Some (filter (\<lambda>r. now - timestamp r < windowMs config) rs))"
      using c
      by (auto simp: cleaned_def getConfig_def unexpired_def [abs_def] filter_empty_conv
          not_le)
    with rl'(3) Some show ?thesis by simp
  qed
  have suf: "suffix (window_of rl' key) (window_of rl key)"
    if c: "getConfig rl (service_of_key key) = Some config"
      and s: "sorted (map timestamp (window_of rl key))" for key config
  proof (cases "map_of (requests rl) key")
    case None
    with rl'(3) show ?thesis by (simp add: window_of_def)
  next
    case (Some rs)
    from s Some have "suffix (filter (unexpired now config) rs) rs"
      by (simp add: window_of_def sorted_filter_suffix)
    with main [OF c] Some show ?thesis
      by (auto simp: window_of_def unexpired_def [abs_def] split: if_splits)
  qed
  from rl'(1,2) main suf show ?thesis by blast
qed

theorem cleanup_spec_witness:
  "map_of (configs busy_limiter) ''default'' = Some small_config \<and>
   distinct (map fst (requests busy_limiter)) \<and>
   sorted (map timestamp (window_of busy_limiter ''api:10.0.0.1'')) \<and>
   (\<exists>rl'. cleanup busy_limiter 60800 = (None, rl') \<and> configs rl' = configs busy_limiter \<and>
      map_of (requests rl') ''api:10.0.0.1'' = Some [\<lparr>timestamp = 50000, count = 1\<rparr>] \<and>
      map_of (requests rl') ''api:10.0.0.2'' = None \<and>
      suffix (window_of rl' ''api:10.0.0.1'') (window_of busy_limiter ''api:10.0.0.1''))"
proof -
  have d: "distinct (map fst (requests busy_limiter))" by (simp add: busy_limiter_def)
  have c: "getConfig busy_limiter (service_of_key k) = Some small_config" for k
    by (simp add: getConfig_def lookupConfig_def busy_limiter_def)
  have s: "sorted (map timestamp (window_of busy_limiter ''api:10.0.0.1''))"
    by (simp add: window_of_def busy_limiter_def)
  have m1: "map_of (requests busy_limiter) ''api:10.0.0.1'' =
      Some [\<lparr>timestamp = 500, count = 1\<rparr>, \<lparr>timestamp = 50000, count = 1\<rparr>]"
    and m2: "map_of (requests busy_limiter) ''api:10.0.0.2'' = Some [\<lparr>timestamp = 700, count = 1\<rparr>]"
    by (simp_all add: busy_limiter_def)
  from cleanup_spec [OF busy_default d, of 60800] obtain rl' where
    rl': "cleanup busy_limiter 60800 = (None, rl')" "configs rl' = configs busy_limiter"
    and all: "\<And>key config. getConfig busy_limiter (service_of_key key) = Some config \<Longrightarrow>
              map_of (requests rl') key =
                (case map_of (requests busy_limiter) key of
                   None \<Rightarrow> None
                 | Some rs \<Rightarrow>
                     if \<forall>r\<in>set rs. windowMs config \<le> 60800 - timestamp r then None
                     else Some (filter (\<lambda>r. 60800 - timestamp r < windowMs config) rs)) \<and>
              (sorted (map timestamp (window_of busy_limiter key)) \<longrightarrow>
                 suffix (window_of rl' key) (window_of busy_limiter key))"
    by blast
  from all [OF c, of "''api:10.0.0.1''"] s
  have 1: "map_of (requests rl') ''api:10.0.0.1'' = Some [\<lparr>timestamp = 50000, count = 1\<rparr>]"
      "suffix (window_of rl' ''api:10.0.0.1'') (window_of busy_limiter ''api:10.0.0.1'')"
    by (simp_all add: m1 small_config_def)
  from all [OF c, of "''api:10.0.0.2''"]
  have 2: "map_of (requests rl') ''api:10.0.0.2'' = None"
    by (simp add: m2 small_config_def)
  from busy_default d s rl' 1 2 show ?thesis by blast
qed

subsection \<open>The capacity of a window\<close>

lemma apply_call_inv:
  assumes d: "map_of (configs rl) ''default'' = Some d"
    and g: "governed_by rl key config c"
    and inv: "capacity_inv rl key (maxRequests config)"
  shows "configs (apply_call rl c) = configs rl \<and>
         capacity_inv (apply_call rl c) key (maxRequests config)"
proof (cases c)
  case (CheckLimit svc ident now)
  obtain cfg where cfg: "getConfig rl svc = Some cfg"
    using getConfig_default [OF d] by blast
  show ?thesis
  proof (cases "make_key svc ident = key")
    case True
    with g CheckLimit cfg have same: "cfg = config" by simp
    have le: "int (length (filter (unexpired now config) (window_of rl (make_key svc ident))))
        \<le> int (length (window_of rl (make_key svc ident)))"
      by simp
    from inv True have "distinct (map fst (requests rl))"
        "int (length (window_of rl (make_key svc ident))) \<le> maxRequests config"
      by (simp_all add: capacity_inv_def)
    with le True show ?thesis
      by (simp add: CheckLimit checkLimit_def cfg same capacity_inv_def Let_def
          window_of_update distinct_update del: length_filter_le)
  next
    case False
    with inv show ?thesis
      by (auto simp: CheckLimit checkLimit_def cfg capacity_inv_def Let_def
          window_of_update distinct_update)
  qed
next
  case (Cleanup now)
  from inv have dist: "distinct (map fst (requests rl))" by (simp add: capacity_inv_def)
  obtain rl' where rl': "cleanup rl now = (None, rl')" "configs rl' = configs rl"
      "distinct (map fst (requests rl'))"
      "\<forall>k. map_of (requests rl') k =
              (case map_of (requests rl) k of None \<Rightarrow> None
               | Some rs \<Rightarrow> cleaned now (configs rl) k rs)"
    using cleanup_default [OF d dist] by blast
  have "length (window_of rl' key) \<le> length (window_of rl key)"
    using rl'(4) by (auto simp: window_of_def split: option.splits dest: length_cleaned)
  with inv rl' show ?thesis
    by (simp add: Cleanup capacity_inv_def)
qed

lemma run_inv:
  assumes d: "map_of (configs rl) ''default'' = Some d"
  shows "list_all (governed_by rl key config) calls \<Longrightarrow>
         capacity_inv rl key (maxRequests config) \<Longrightarrow>
         configs (run rl calls) = configs rl \<and>
         capacity_inv (run rl calls) key (maxRequests config)"
proof (induction calls rule: rev_induct)
  case Nil
  then show ?case by (simp add: run_def)
next
  case (snoc c calls)
  let ?mid = "run rl calls"
  from snoc have mid: "configs ?mid = configs rl" "capacity_inv ?mid key (maxRequests config)"
    by simp_all
  from snoc.prems have "governed_by rl key config c" by simp
  then have g: "governed_by ?mid key config c"
    using mid(1) by (cases c) (simp_all add: getConfig_def)
  have d': "map_of (configs ?mid) ''default'' = Some d" using d mid(1) by simp
  from apply_call_inv [OF d' g mid(2)] mid(1) show ?case
    by (simp add: run_def)
qed

text \<open>
  C1. Start from a limiter with an empty request table. After any sequence of
  \<open>checkLimit\<close> calls (and cleanups between them), at whatever clock readings, the window
  stored for a (service, identifier) key holds at most \<open>maxRequests\<close> timestamps younger
  than \<open>windowMs\<close>, seen from any observation time: the capacity of the window is never
  exceeded. The capacity is not negative, and every check of this key is made under this
  configuration.
\<close>

theorem window_never_exceeds_capacity:
  assumes "requests rl = []"
    and "map_of (configs rl) ''default'' = Some d"
    and "getConfig rl svc = Some config"
    and "0 \<le> maxRequests config"
    and "list_all (governed_by rl (make_key svc ident) config) calls"
  shows "int (length (filter (\<lambda>r. observed - timestamp r < windowMs config)
                        (window_of (run rl calls) (make_key svc ident))))
         \<le> maxRequests config"
proof -
  have "capacity_inv rl (make_key svc ident) (maxRequests config)"
    using assms(1,4) by (simp add: capacity_inv_def window_of_def)
  from run_inv [OF assms(2) assms(5) this]
  have "int (length (window_of (run rl calls) (make_key svc ident))) \<le> maxRequests config"
    by (simp add: capacity_inv_def)
  moreover have "length (filter (\<lambda>r. observed - timestamp r < windowMs config)
                        (window_of (run rl calls) (make_key svc ident)))
      \<le> length (window_of (run rl calls) (make_key svc ident))"
    by simp
  ultimately show ?thesis by linarith
qed

theorem window_never_exceeds_capacity_witness:
  "requests small_limiter = [] \<and>
   map_of (configs small_limiter) ''default'' = Some small_config \<and>
   getConfig small_limiter ''api'' = Some small_config \<and>
   0 \<le> maxRequests small_config \<and>
   list_all (governed_by small_limiter (make_key ''api'' ''u'') small_config)
     [CheckLimit ''api'' ''u'' 100, CheckLimit ''api'' ''u'' 200, Cleanup 300,
      CheckLimit ''web'' ''u'' 400, CheckLimit ''api'' ''u'' 500] \<and>
   int (length (filter (\<lambda>r. 600 - timestamp r < windowMs small_config)
     (window_of
        (run small_limiter
           [CheckLimit ''api'' ''u'' 100, CheckLimit ''api'' ''u'' 200, Cleanup 300,
            CheckLimit ''web'' ''u'' 400, CheckLimit ''api'' ''u'' 500])
        (make_key ''api'' ''u'')))) \<le> maxRequests small_config"
proof -
  have h1: "requests small_limiter = []" by (simp add: small_limiter_def)
  have h4: "0 \<le> maxRequests small_config" by (simp add: small_config_def)
  have h5: "list_all (governed_by small_limiter (make_key ''api'' ''u'') small_config)
     [CheckLimit ''api'' ''u'' 100, CheckLimit ''api'' ''u'' 200, Cleanup 300,
      CheckLimit ''web'' ''u'' 400, CheckLimit ''api'' ''u'' 500]"
    by (simp add: small_config_api make_key_def)
  from window_never_exceeds_capacity [OF h1 small_default small_config_api h4 h5, of 600]
    h1 small_default small_config_api h4 h5
  show ?thesis by blast
qed

subsection \<open>The order of the records\<close>

text \<open>
  Under a clock that does not go back, \<open>checkLimit\<close> appends to a window no timestamp
  earlier than those it holds, and pruning keeps the order: the first record of a window
  is its oldest, and the unexpired records are a suffix of it.
\<close>

lemma sorted_snoc_le:
  "sorted (map timestamp rs) \<Longrightarrow> list_all (\<lambda>r. timestamp r \<le> t) rs \<Longrightarrow>
     sorted (map timestamp (rs @ [\<lparr>timestamp = t, count = c\<rparr>]))"
  by (auto simp: sorted_append list_all_iff)

lemma apply_call_ordered:
  assumes d: "map_of (configs rl) ''default'' = Some d"
    and inv: "ordered_inv rl latest"
    and le: "latest \<le> call_time c"
  shows "configs (apply_call rl c) = configs rl \<and> ordered_inv (apply_call rl c) (call_time c)"
proof (cases c)
  case (CheckLimit svc ident now)
  obtain cfg where cfg: "getConfig rl svc = Some cfg"
    using getConfig_default [OF d] by blast
  let ?key = "make_key svc ident"
  let ?pruned = "filter (unexpired now cfg) (window_of rl ?key)"
  from inv have s: "sorted (map timestamp (window_of rl k))"
    and b: "list_all (\<lambda>r. timestamp r \<le> latest) (window_of rl k)" for k
    by (simp_all add: ordered_inv_def)
  from le CheckLimit have le': "latest \<le> now" by simp
  have sp: "sorted (map timestamp ?pruned)"
    using s [of ?key] by (simp add: sorted_map sorted_wrt_filter)
  have bp: "list_all (\<lambda>r. timestamp r \<le> now) ?pruned"
    using b [of ?key] le' by (auto simp: list_all_iff)
  have bk: "list_all (\<lambda>r. timestamp r \<le> now) (window_of rl k)" for k
    using b [of k] le' by (auto simp: list_all_iff)
  have sa: "sorted (map timestamp (?pruned @ [\<lparr>timestamp = now, count = 1\<rparr>]))"
    using sp bp by (rule sorted_snoc_le)
  have ba: "list_all (\<lambda>r. timestamp r \<le> now) (?pruned @ [\<lparr>timestamp = now, count = 1\<rparr>])"
    using bp by simp
  from inv have dist: "distinct (map fst (requests rl))" by (simp add: ordered_inv_def)
  show ?thesis
    using sp bp sa ba s bk dist
    by (simp add: CheckLimit checkLimit_def cfg Let_def ordered_inv_def window_of_update
        distinct_update del: map_append)
next
  case (Cleanup now)
  from inv have dist: "distinct (map fst (requests rl))" by (simp add: ordered_inv_def)
  obtain rl' where rl': "cleanup rl now = (None, rl')" "configs rl' = configs rl"
      "distinct (map fst (requests rl'))"
      "\<forall>k. map_of (requests rl') k =
              (case map_of (requests rl) k of None \<Rightarrow> None
               | Some rs \<Rightarrow> cleaned now (configs rl) k rs)"
    using cleanup_default [OF d dist] by blast
  from le Cleanup have le': "latest \<le> now" by simp
  have "sorted (map timestamp (window_of rl' k)) \<and>
        list_all (\<lambda>r. timestamp r \<le> now) (window_of rl' k)" for k
  proof (cases "map_of (requests rl) k")
    case None
    with rl'(4) show ?thesis by (simp add: window_of_def)
  next
    case (Some rs)
    from inv Some have s: "sorted (map timestamp rs)"
      and b: "list_all (\<lambda>r. timestamp r \<le> latest) rs"
      using ordered_inv_def [of rl latest] by (auto simp: window_of_def dest: spec [of _ k])
    show ?thesis
    proof (cases "cleaned now (configs rl) k rs")
      case None
      with rl'(4) Some show ?thesis by (simp add: window_of_def)
    next
      case (Some v)
      then obtain cfg where v: "v = filter (unexpired now cfg) rs"
        by (auto simp: cleaned_def split: option.splits if_splits)
      have "sorted (map timestamp v)" using s by (simp add: v sorted_map sorted_wrt_filter)
      moreover have "list_all (\<lambda>r. timestamp r \<le> now) v"
        using b le' by (auto simp: v list_all_iff)
      ultimately show ?thesis
        using rl'(4) \<open>map_of (requests rl) k = Some rs\<close> Some by (simp add: window_of_def)
    qed
  qed
  with rl' show ?thesis by (simp add: Cleanup ordered_inv_def)
qed

lemma run_ordered:
  assumes d: "map_of (configs rl) ''default'' = Some d"
    and "ordered_inv rl latest"
    and "sorted (map call_time calls)"
    and "list_all (\<lambda>c. latest \<le> call_time c) calls"
  shows "\<exists>latest'. ordered_inv (run rl calls) latest'"
  using assms
proof (induction calls arbitrary: rl latest)
  case Nil
  then show ?case by (auto simp: run_def)
next
  case (Cons c calls)
  from Cons.prems have le: "latest \<le> call_time c" by simp
  from apply_call_ordered [OF Cons.prems(1,2) le]
  have 1: "configs (apply_call rl c) = configs rl" "ordered_inv (apply_call rl c) (call_time c)"
    by simp_all
  from Cons.prems(3) have 2: "sorted (map call_time calls)"
    "list_all (\<lambda>c'. call_time c \<le> call_time c') calls"
    by (auto simp: list_all_iff)
  from Cons.prems(1) 1(1) have d': "map_of (configs (apply_call rl c)) ''default'' = Some d"
    by simp
  from Cons.IH [OF d' 1(2) 2] show ?case by (simp add: run_def)
qed

lemma windows_ordered_under_monotone_clock:
  assumes "requests rl = []" and "map_of (configs rl) ''default'' = Some d"
    and "sorted (map call_time calls)"
  shows "sorted (map timestamp (window_of (run rl calls) key))"
proof (cases calls)
  case Nil
  with assms(1) show ?thesis by (simp add: run_def window_of_def)
next
  case (Cons c cs)
  have 0: "ordered_inv rl (call_time c)"
    using assms(1) by (simp add: ordered_inv_def window_of_def)
  from assms(3) Cons have "list_all (\<lambda>c'. call_time c \<le> call_time c') calls"
    by (auto simp: list_all_iff)
  from run_ordered [OF assms(2) 0 assms(3) this] show ?thesis
    by (auto simp: ordered_inv_def)
qed

subsection \<open>Reset time\<close>

lemma hd_sorted_Min:
  "sorted (map timestamp (r # rs)) \<Longrightarrow> timestamp r = Min (timestamp ` set (r # rs))"
  by (auto intro!: Min_eqI [symmetric])

text \<open>
  C7. \<open>getResetTime\<close> returns \<open>null\<close> exactly when no request is recorded under the key
  (no entry, or an empty list), and otherwise the timestamp of the first, that is oldest,
  recorded request plus \<open>windowMs\<close>. It has no clock among its arguments, filters nothing
  and returns no new state: an entry that has expired still determines the result.
\<close>

theorem getResetTime_spec:
  assumes cfg: "getConfig rl svc = Some config"
  shows "(getResetTime rl svc ident = Inr None \<longleftrightarrow>
            map_of (requests rl) (make_key svc ident) = None \<or>
            map_of (requests rl) (make_key svc ident) = Some []) \<and>
         (\<forall>r rs. map_of (requests rl) (make_key svc ident) = Some (r # rs) \<longrightarrow>
            getResetTime rl svc ident = Inr (Some (timestamp r + windowMs config)) \<and>
            (sorted (map timestamp (r # rs)) \<longrightarrow>
               getResetTime rl svc ident =
                 Inr (Some (Min (timestamp ` set (r # rs)) + windowMs config))) \<and>
            (\<forall>now. windowMs config \<le> now - timestamp r \<longrightarrow>
               (\<exists>t. getResetTime rl svc ident = Inr (Some t) \<and> t \<le> now)))"
proof -
  have "sorted (map timestamp (r # rs)) \<Longrightarrow> timestamp r = Min (timestamp ` set (r # rs))"
    for r :: RequestRecord and rs
    by (rule hd_sorted_Min)
  then show ?thesis
    using cfg
    by (auto simp: getResetTime_def window_of_def split: option.splits list.splits)
qed

theorem getResetTime_spec_witness:
  "getConfig busy_limiter ''api'' = Some small_config \<and>
   map_of (requests busy_limiter) (make_key ''api'' ''10.0.0.1'') =
     Some [\<lparr>timestamp = 500, count = 1\<rparr>, \<lparr>timestamp = 50000, count = 1\<rparr>] \<and>
   sorted (map timestamp [\<lparr>timestamp = 500, count = 1\<rparr>, \<lparr>timestamp = 50000, count = 1\<rparr>]) \<and>
   windowMs small_config \<le> 70000 - 500 \<and>
   getResetTime busy_limiter ''api'' ''10.0.0.1'' = Inr (Some 60500) \<and>
   getResetTime busy_limiter ''api'' ''10.0.0.9'' = Inr None"
  using getResetTime_spec [OF busy_config, of "''10.0.0.1''"]
    getResetTime_spec [OF busy_config, of "''10.0.0.9''"] busy_config
  by (simp add: make_key_def busy_limiter_def small_config_def)

subsection \<open>The helper for API routes\<close>

lemma reset_time_not_zero:
  assumes "getConfig rl svc = Some config" and "0 \<le> windowMs config"
    and "list_all (\<lambda>r. 0 < timestamp r) (window_of rl (make_key svc ident))"
  shows "getResetTime rl svc ident \<noteq> Inr (Some 0)"
  using assms by (cases "window_of rl (make_key svc ident)") (auto simp: getResetTime_def)

lemma math_ceil_quot_ceiling: "math_ceil_quot a 1000 = \<lceil>(of_int a :: real) / 1000\<rceil>"
  unfolding math_ceil_quot_def by linarith

text \<open>
  C3. When \<open>checkLimit\<close> refuses the request, \<open>withRateLimit\<close> throws an error and does
  not invoke the wrapped operation (the world the operation acts on is returned as it
  was, whatever the operation is); the message names the service and a wait time of
  \<open>ceil((resetTime - now) / 1000)\<close> seconds, or 60 seconds when \<open>getResetTime\<close> returns
  \<open>null\<close>. When \<open>checkLimit\<close> admits the request, \<open>withRateLimit\<close> returns exactly what
  the operation returns or throws. The wait time is stated for a reset time other than the
  number 0, which the truthiness test of the code sends to the 60 seconds as well; a clock
  after the epoch and a window that is not negative give no such reset time.
\<close>

theorem withRateLimit_spec:
  assumes chk: "checkLimit rl svc ident now = Inr (allowed, rl')"
  shows "(\<not> allowed \<longrightarrow>
            (\<exists>resetTime. getResetTime rl' svc ident = Inr resetTime \<and>
               (resetTime \<noteq> Some 0 \<longrightarrow>
                  withRateLimit rl svc ident now now' operation world =
                    (Inl (Error (''Rate limit exceeded for '' @ svc @ ''. Try again in '' @
                           number_text
                             (case resetTime of
                                None \<Rightarrow> 60
                              | Some t \<Rightarrow> \<lceil>(of_int (t - now') :: real) / 1000\<rceil>) @
                           '' seconds.'')),
                     rl', world)))) \<and>
         (allowed \<longrightarrow>
            withRateLimit rl svc ident now now' operation world =
              (fst (operation world), rl', snd (operation world)))"
proof -
  obtain config where c: "getConfig rl' svc = Some config"
    using checkLimit_Inr_config [OF chk] by (auto simp: getConfig_def)
  have "\<exists>resetTime. getResetTime rl' svc ident = Inr resetTime"
    by (cases "window_of rl' (make_key svc ident)") (simp_all add: getResetTime_def c)
  then obtain resetTime where r: "getResetTime rl' svc ident = Inr resetTime" ..
  show ?thesis
    using chk r
    by (auto simp: withRateLimit_def wait_seconds_def rate_limit_message_def
        math_ceil_quot_ceiling split: option.splits prod.splits)
qed

theorem withRateLimit_spec_witness:
  "checkLimit busy_limiter ''api'' ''10.0.0.1'' 50500 = Inr (False, busy_limiter) \<and>
   getResetTime busy_limiter ''api'' ''10.0.0.1'' = Inr (Some 60500) \<and>
   withRateLimit busy_limiter ''api'' ''10.0.0.1'' 50500 50600
       succeeding_operation 0 =
     (Inl (Error ''Rate limit exceeded for api. Try again in 10 seconds.''), busy_limiter, 0) \<and>
   checkLimit busy_limiter ''api'' ''10.0.0.1'' 60800 = Inr (True, after_admission) \<and>
   withRateLimit busy_limiter ''api'' ''10.0.0.1'' 60800 60900
       succeeding_operation 0 =
     (Inr ''analysis'', after_admission, 1)"
proof -
  have r: "getResetTime busy_limiter ''api'' ''10.0.0.1'' = Inr (Some 60500)"
    by code_simp
  from withRateLimit_spec [OF busy_refuses, of 50600 succeeding_operation 0] r
  have 1: "withRateLimit busy_limiter ''api'' ''10.0.0.1'' 50500 50600
       succeeding_operation 0 =
     (Inl (Error ''Rate limit exceeded for api. Try again in 10 seconds.''), busy_limiter, 0)"
    by (simp add: number_text_10 succeeding_operation_def)
  from withRateLimit_spec [OF busy_admits, of 60900 succeeding_operation 0]
  have 2: "withRateLimit busy_limiter ''api'' ''10.0.0.1'' 60800 60900
       succeeding_operation 0 =
     (Inr ''analysis'', after_admission, 1)"
    by (simp add: succeeding_operation_def)
  from busy_refuses r 1 busy_admits 2 show ?thesis by blast
qed

text \<open>
  C10. \<open>withRateLimit\<close> does not give the slot back when the wrapped operation fails:
  once \<open>checkLimit\<close> has admitted the request, the error of the operation is passed on and
  the limiter keeps the recorded timestamp. Until the window has passed, the record counts
  against \<open>maxRequests\<close> and survives the pruning of every later check.
\<close>

theorem failed_operation_keeps_slot:
  assumes chk: "checkLimit rl svc ident now = Inr (True, rl')"
    and op: "operation world = (Inl e, world')"
  shows "withRateLimit rl svc ident now now' operation world = (Inl e, rl', world') \<and>
         \<lparr>timestamp = now, count = 1\<rparr> \<in> set (window_of rl' (make_key svc ident)) \<and>
         (\<forall>config later. getConfig rl svc = Some config \<longrightarrow>
            now \<le> later \<longrightarrow> later - now < windowMs config \<longrightarrow>
            getRemainingRequests rl' svc ident later =
              Inr (max 0 (maxRequests config - 1 -
                     int (length (filter (\<lambda>r. later - timestamp r < windowMs config)
                                    (window_of rl (make_key svc ident)))))) \<and>
            (\<forall>allowed2 rl2. checkLimit rl' svc ident later = Inr (allowed2, rl2) \<longrightarrow>
               \<lparr>timestamp = now, count = 1\<rparr> \<in> set (window_of rl2 (make_key svc ident))))"
proof -
  obtain config where c: "getConfig rl svc = Some config" and c': "configs rl' = configs rl"
    using checkLimit_Inr_config [OF chk] by blast
  let ?key = "make_key svc ident"
  let ?new = "\<lparr>timestamp = now, count = 1\<rparr>"
  have w: "window_of rl' ?key = filter (unexpired now config) (window_of rl ?key) @ [?new]"
    using chk c
    by (auto simp: checkLimit_def Let_def window_of_update split: if_splits)
  have first: "withRateLimit rl svc ident now now' operation world = (Inl e, rl', world')"
    using chk op by (simp add: withRateLimit_def)
  have rest: "getRemainingRequests rl' svc ident later =
              Inr (max 0 (maxRequests config - 1 -
                     int (length (filter (\<lambda>r. later - timestamp r < windowMs config)
                                    (window_of rl ?key))))) \<and>
            (\<forall>allowed2 rl2. checkLimit rl' svc ident later = Inr (allowed2, rl2) \<longrightarrow>
               ?new \<in> set (window_of rl2 ?key))"
    if le: "now \<le> later" and lt: "later - now < windowMs config" for later
  proof -
    have "unexpired now config r \<and> unexpired later config r \<longleftrightarrow> unexpired later config r" for r
      using le by (auto simp: unexpired_def)
    then have f: "filter (unexpired later config) (filter (unexpired now config) (window_of rl ?key))
        = filter (unexpired later config) (window_of rl ?key)"
      by simp
    have n: "unexpired later config ?new" using lt by (simp add: unexpired_def)
    have c2: "getConfig rl' svc = Some config" using c c' by (simp add: getConfig_def)
    have "getRemainingRequests rl' svc ident later =
              Inr (max 0 (maxRequests config - 1 -
                     int (length (filter (unexpired later config) (window_of rl ?key)))))"
      by (simp add: getRemainingRequests_def c2 w f n Let_def del: filter_filter)
    moreover have "?new \<in> set (window_of rl2 ?key)"
      if "checkLimit rl' svc ident later = Inr (allowed2, rl2)" for allowed2 rl2
      using that n
      by (auto simp: checkLimit_def c2 Let_def w window_of_update split: if_splits)
    ultimately show ?thesis by (simp add: unexpired_def [abs_def])
  qed
  from first w rest c show ?thesis by auto
qed

theorem failed_operation_keeps_slot_witness:
  "checkLimit busy_limiter ''api'' ''10.0.0.1'' 60800 = Inr (True, after_admission) \<and>
   failing_operation 0 =
     (Inl (Error ''upstream failure''), 1) \<and>
   withRateLimit busy_limiter ''api'' ''10.0.0.1'' 60800 60900
       failing_operation 0 =
     (Inl (Error ''upstream failure''), after_admission, 1) \<and>
   \<lparr>timestamp = 60800, count = 1\<rparr> \<in> set (window_of after_admission (make_key ''api'' ''10.0.0.1'')) \<and>
   getRemainingRequests busy_limiter ''api'' ''10.0.0.1'' 70000 = Inr 1 \<and>
   getRemainingRequests after_admission ''api'' ''10.0.0.1'' 70000 = Inr 0"
proof -
  have op: "failing_operation 0 = (Inl (Error ''upstream failure''), 1)"
    by (simp add: failing_operation_def)
  have before: "getRemainingRequests busy_limiter ''api'' ''10.0.0.1'' 70000 = Inr 1"
    by code_simp
  have w: "window_of busy_limiter (make_key ''api'' ''10.0.0.1'') =
      [\<lparr>timestamp = 500, count = 1\<rparr>, \<lparr>timestamp = 50000, count = 1\<rparr>]"
    by (simp add: make_key_def window_of_def busy_limiter_def)
  from failed_operation_keeps_slot [where operation = failing_operation and world = 0,
      OF busy_admits op, of 60900]
  have a: "withRateLimit busy_limiter ''api'' ''10.0.0.1'' 60800 60900 failing_operation 0 =
       (Inl (Error ''upstream failure''), after_admission, 1)"
    and b: "\<lparr>timestamp = 60800, count = 1\<rparr> \<in> set (window_of after_admission (make_key ''api'' ''10.0.0.1''))"
    and c: "\<And>config later. getConfig busy_limiter ''api'' = Some config \<Longrightarrow>
            60800 \<le> later \<Longrightarrow> later - 60800 < windowMs config \<Longrightarrow>
            getRemainingRequests after_admission ''api'' ''10.0.0.1'' later =
              Inr (max 0 (maxRequests config - 1 -
                     int (length (filter (\<lambda>r. later - timestamp r < windowMs config)
                                    (window_of busy_limiter (make_key ''api'' ''10.0.0.1''))))))"
    by blast+
  from c [OF busy_config, of 70000]
  have "getRemainingRequests after_admission ''api'' ''10.0.0.1'' 70000 = Inr 0"
    by (simp add: w small_config_def)
  with busy_admits op a b before show ?thesis by blast
qed

section \<open>Properties of the parsers\<close>

subsection \<open>The match and the fallback\<close>

lemma json_match_None_iff:
  "json_match content = None \<longleftrightarrow>
     \<not> (\<exists>pre mid post. content = pre @ [CHR ''{''] @ mid @ [CHR ''}''] @ post)"
proof
  assume n: "json_match content = None"
  show "\<not> (\<exists>pre mid post. content = pre @ [CHR ''{''] @ mid @ [CHR ''}''] @ post)"
  proof
    assume "\<exists>pre mid post. content = pre @ [CHR ''{''] @ mid @ [CHR ''}''] @ post"
    then obtain pre mid post where c: "content = pre @ [CHR ''{''] @ mid @ [CHR ''}''] @ post"
      by blast
    have "CHR ''}'' \<in> set (dropWhile (\<lambda>c. c \<noteq> CHR ''{'') content)"
      unfolding c by (induction pre) simp_all
    then have "dropWhile (\<lambda>c. c \<noteq> CHR ''}'') (rev (dropWhile (\<lambda>c. c \<noteq> CHR ''{'') content)) \<noteq> []"
      by auto
    moreover from n have
      "dropWhile (\<lambda>c. c \<noteq> CHR ''}'') (rev (dropWhile (\<lambda>c. c \<noteq> CHR ''{'') content)) = []"
      by (simp add: json_match_def Let_def split: if_splits del: dropWhile_eq_Nil_conv)
    ultimately show False by blast
  qed
next
  assume none: "\<not> (\<exists>pre mid post. content = pre @ [CHR ''{''] @ mid @ [CHR ''}''] @ post)"
  let ?rest = "dropWhile (\<lambda>c. c \<noteq> CHR ''{'') content"
  have "CHR ''}'' \<notin> set ?rest"
  proof
    assume in_rest: "CHR ''}'' \<in> set ?rest"
    then have ne: "?rest \<noteq> []" by (auto simp del: dropWhile_eq_Nil_conv)
    then have hd: "hd ?rest = CHR ''{''" using hd_dropWhile [of "\<lambda>c. c \<noteq> CHR ''{''" content] by simp
    from ne hd obtain tl' where r: "?rest = CHR ''{'' # tl'" by (cases ?rest) auto
    with in_rest have "CHR ''}'' \<in> set tl'" by auto
    then obtain mid post where t: "tl' = mid @ CHR ''}'' # post" by (auto simp: in_set_conv_decomp)
    have "content = takeWhile (\<lambda>c. c \<noteq> CHR ''{'') content @ ?rest" by simp
    with r t have "content = takeWhile (\<lambda>c. c \<noteq> CHR ''{'') content @ [CHR ''{''] @ mid @ [CHR ''}''] @ post"
      by simp
    with none show False by blast
  qed
  then have "dropWhile (\<lambda>c. c \<noteq> CHR ''}'') (rev ?rest) = []"
    by auto
  then show "json_match content = None" by (simp add: json_match_def)
qed

lemma parseBlogResponse_total: "\<exists>blog. parseBlogResponse JSON_parse response_content = Inr blog"
  by (simp add: parseBlogResponse_def split: sum.splits)

lemma parseAnalysisResponse_total: "\<exists>analysis. parseAnalysisResponse JSON_parse response = Inr analysis"
  by (simp add: parseAnalysisResponse_def split: sum.splits)

lemma parseBlogResponse_try_fails:
  "json_match (response_text response_content) = None \<or>
   (\<exists>m. json_match (response_text response_content) = Some m \<and>
        ((\<exists>e. JSON_parse m = Inl e) \<or>
         (\<exists>parsed. JSON_parse m = Inr parsed \<and>
            (\<not> truthy (property parsed ''title'') \<or> \<not> truthy (property parsed ''content'') \<or>
             \<not> truthy (property parsed ''metaDescription''))))) \<Longrightarrow>
   \<exists>e. parseBlogResponse_try JSON_parse response_content = Inl e"
  by (auto simp: parseBlogResponse_try_def)

lemma parseAnalysisResponse_try_fails:
  "analysis_content response = Inr content \<Longrightarrow>
   json_match content = None \<or>
   (\<exists>m. json_match content = Some m \<and>
        ((\<exists>e. JSON_parse m = Inl e) \<or>
         (\<exists>parsed. JSON_parse m = Inr parsed \<and>
            (\<not> truthy (property parsed ''keyInsights'') \<or>
             \<not> is_array (property parsed ''keyInsights''))))) \<Longrightarrow>
   \<exists>e. parseAnalysisResponse_try JSON_parse response = Inl e"
  by (auto simp: parseAnalysisResponse_try_def)

lemma property_update:
  "property (AList.update k v ps) name = (if name = k then v else property ps name)"
  by (simp add: property_def update_conv')

lemma untitled_match:
  "json_match (response_text (ContentBlocks [TextBlock untitled_json])) = Some untitled_json"
  by code_simp

lemma untitled_parse:
  "example_parse untitled_json = Inr [(''content'', JStr ''c''), (''metaDescription'', JStr ''M'')]"
  by code_simp

text \<open>
  C4. Parsing of the responses of the external models is total, with fallback defaults.
  When the text of the response holds no opening brace with a closing brace after it, when
  \<open>JSON.parse\<close> throws on the matched block, or when the parsed object lacks a required
  field (or holds a falsy value there; for the analysis, a value that is no array),
  \<open>parseBlogResponse\<close> returns the fixed fallback post (title "Blog Post Generation
  Failed", score 0) and \<open>parseAnalysisResponse\<close> the fixed fallback analysis (key insights
  "Analysis failed - manual review needed"). Neither ever throws: each returns a value for
  every response and every behaviour of \<open>JSON.parse\<close>.
\<close>

theorem parsers_fall_back:
  "((\<not> (\<exists>pre mid post. response_text response_content = pre @ [CHR ''{''] @ mid @ [CHR ''}''] @ post) \<or>
     (\<exists>m. json_match (response_text response_content) = Some m \<and>
        ((\<exists>e. JSON_parse m = Inl e) \<or>
         (\<exists>parsed. JSON_parse m = Inr parsed \<and>
            (\<not> truthy (property parsed ''title'') \<or> \<not> truthy (property parsed ''content'') \<or>
             \<not> truthy (property parsed ''metaDescription'')))))) \<longrightarrow>
    parseBlogResponse JSON_parse response_content = Inr fallback_blog) \<and>
   get_prop fallback_blog ''title'' = Inr (JStr ''Blog Post Generation Failed'') \<and>
   get_prop fallback_blog ''seoScore'' = Inr (JNum 0) \<and>
   ((\<forall>content. analysis_content response = Inr content \<longrightarrow>
       \<not> (\<exists>pre mid post. content = pre @ [CHR ''{''] @ mid @ [CHR ''}''] @ post) \<or>
       (\<exists>m. json_match content = Some m \<and>
          ((\<exists>e. JSON_parse m = Inl e) \<or>
           (\<exists>parsed. JSON_parse m = Inr parsed \<and>
              (\<not> truthy (property parsed ''keyInsights'') \<or>
               \<not> is_array (property parsed ''keyInsights'')))))) \<longrightarrow>
    parseAnalysisResponse JSON_parse response = Inr fallback_analysis) \<and>
   get_prop fallback_analysis ''keyInsights'' =
     Inr (JArr [JStr ''Analysis failed - manual review needed'']) \<and>
   (\<exists>blog. parseBlogResponse JSON_parse response_content = Inr blog) \<and>
   (\<exists>analysis. parseAnalysisResponse JSON_parse response = Inr analysis)"
proof -
  have blog: "parseBlogResponse JSON_parse response_content = Inr fallback_blog"
    if "\<not> (\<exists>pre mid post. response_text response_content = pre @ [CHR ''{''] @ mid @ [CHR ''}''] @ post) \<or>
     (\<exists>m. json_match (response_text response_content) = Some m \<and>
        ((\<exists>e. JSON_parse m = Inl e) \<or>
         (\<exists>parsed. JSON_parse m = Inr parsed \<and>
            (\<not> truthy (property parsed ''title'') \<or> \<not> truthy (property parsed ''content'') \<or>
             \<not> truthy (property parsed ''metaDescription'')))))"
  proof -
    from that have "\<exists>e. parseBlogResponse_try JSON_parse response_content = Inl e"
      by (intro parseBlogResponse_try_fails) (simp add: json_match_None_iff)
    then show ?thesis by (auto simp: parseBlogResponse_def)
  qed
  have analysis: "parseAnalysisResponse JSON_parse response = Inr fallback_analysis"
    if h: "\<forall>content. analysis_content response = Inr content \<longrightarrow>
       \<not> (\<exists>pre mid post. content = pre @ [CHR ''{''] @ mid @ [CHR ''}''] @ post) \<or>
       (\<exists>m. json_match content = Some m \<and>
          ((\<exists>e. JSON_parse m = Inl e) \<or>
           (\<exists>parsed. JSON_parse m = Inr parsed \<and>
              (\<not> truthy (property parsed ''keyInsights'') \<or>
               \<not> is_array (property parsed ''keyInsights'')))))"
  proof -
    have "\<exists>e. parseAnalysisResponse_try JSON_parse response = Inl e"
    proof (cases "analysis_content response")
      case (Inl e)
      then show ?thesis by (simp add: parseAnalysisResponse_try_def)
    next
      case (Inr content)
      with h show ?thesis
        by (intro parseAnalysisResponse_try_fails [OF Inr]) (simp add: json_match_None_iff)
    qed
    then show ?thesis by (auto simp: parseAnalysisResponse_def)
  qed
  have "get_prop fallback_blog ''title'' = Inr (JStr ''Blog Post Generation Failed'')"
      "get_prop fallback_blog ''seoScore'' = Inr (JNum 0)"
      "get_prop fallback_analysis ''keyInsights'' =
         Inr (JArr [JStr ''Analysis failed - manual review needed''])"
    by (simp_all add: get_prop_def property_def fallback_blog_def fallback_analysis_def)
  with blog analysis parseBlogResponse_total [of JSON_parse response_content]
    parseAnalysisResponse_total [of JSON_parse response]
  show ?thesis by blast
qed

theorem parsers_fall_back_witness:
  "json_match (response_text (ContentBlocks [TextBlock untitled_json])) = Some untitled_json \<and>
   example_parse untitled_json = Inr [(''content'', JStr ''c''), (''metaDescription'', JStr ''M'')] \<and>
   parseBlogResponse example_parse (ContentBlocks [TextBlock untitled_json]) = Inr fallback_blog \<and>
   analysis_content (PerplexityResponse (Some [Choice (Some (Some ''no json here''))])) =
     Inr ''no json here'' \<and>
   parseAnalysisResponse example_parse
     (PerplexityResponse (Some [Choice (Some (Some ''no json here''))])) = Inr fallback_analysis"
proof -
  let ?rc = "ContentBlocks [TextBlock untitled_json]"
  let ?resp = "PerplexityResponse (Some [Choice (Some (Some ''no json here''))])"
  have lacks: "\<not> truthy (property [(''content'', JStr ''c''), (''metaDescription'', JStr ''M'')] ''title'')"
    by (simp add: property_def)
  have nomatch: "json_match ''no json here'' = None" by code_simp
  have ac: "analysis_content ?resp = Inr ''no json here''" by simp
  have a: "\<forall>content. analysis_content ?resp = Inr content \<longrightarrow>
       \<not> (\<exists>pre mid post. content = pre @ [CHR ''{''] @ mid @ [CHR ''}''] @ post) \<or>
       (\<exists>m. json_match content = Some m \<and>
          ((\<exists>e. example_parse m = Inl e) \<or>
           (\<exists>parsed. example_parse m = Inr parsed \<and>
              (\<not> truthy (property parsed ''keyInsights'') \<or>
               \<not> is_array (property parsed ''keyInsights'')))))"
    using nomatch by (simp add: json_match_None_iff)
  from parsers_fall_back [of ?rc example_parse ?resp] untitled_match untitled_parse lacks a
  have "parseBlogResponse example_parse ?rc = Inr fallback_blog"
    "parseAnalysisResponse example_parse ?resp = Inr fallback_analysis"
    by blast+
  with untitled_match untitled_parse ac show ?thesis by blast
qed

subsection \<open>Defaults for the optional fields\<close>

lemma numeric_match:
  "json_match (response_text (ContentBlocks [TextBlock numeric_json])) = Some numeric_json"
  by code_simp

lemma numeric_parse:
  "example_parse numeric_json =
     Inr [(''title'', JStr ''T''), (''content'', JNum 5), (''metaDescription'', JStr ''M''),
          (''seoScore'', JNum 0)]"
  by code_simp

lemma article_match:
  "json_match (response_text (ContentBlocks [TextBlock article_text])) = Some article_json"
  by code_simp

lemma article_parse:
  "example_parse article_json =
     Inr [(''title'', JStr ''T''), (''content'', JStr ''<p>Hi</p> there''),
          (''metaDescription'', JStr ''M''), (''seoScore'', JNum 0)]"
  by code_simp

lemma strip_example: "strip_tags (take 200 ''<p>Hi</p> there'') @ ''...'' = ''Hi there...''"
  by code_simp

text \<open>
  C9, as stated, fails: a response whose JSON has title, content and metaDescription, with
  the number 5 as content, no excerpt and a score of 0. The three fields pass the
  validation, the default of the excerpt calls \<open>substring\<close> on a number and throws, and the
  \<open>catch\<close> block returns the fallback post, whose tags are not the empty list and whose
  score is 0.
\<close>

theorem blog_defaults_counterexample:
  "json_match (response_text (ContentBlocks [TextBlock numeric_json])) = Some numeric_json \<and>
   example_parse numeric_json =
     Inr [(''title'', JStr ''T''), (''content'', JNum 5), (''metaDescription'', JStr ''M''),
          (''seoScore'', JNum 0)] \<and>
   parseBlogResponse example_parse (ContentBlocks [TextBlock numeric_json]) = Inr fallback_blog \<and>
   get_prop fallback_blog ''seoScore'' = Inr (JNum 0) \<and>
   get_prop fallback_blog ''tags'' = Inr (JArr [JStr ''error'', JStr ''retry'']) \<and>
   get_prop fallback_blog ''excerpt'' = Inr (JStr ''Blog post generation failed. Please try again.'')"
proof -
  have "parseBlogResponse example_parse (ContentBlocks [TextBlock numeric_json]) = Inr fallback_blog"
    by (simp add: parseBlogResponse_def parseBlogResponse_try_def numeric_match numeric_parse
        property_def or_else_def update_conv')
  moreover have "get_prop fallback_blog ''seoScore'' = Inr (JNum 0)"
      "get_prop fallback_blog ''tags'' = Inr (JArr [JStr ''error'', JStr ''retry''])"
      "get_prop fallback_blog ''excerpt'' = Inr (JStr ''Blog post generation failed. Please try again.'')"
    by (simp_all add: get_prop_def property_def fallback_blog_def)
  ultimately show ?thesis using numeric_match numeric_parse by blast
qed

text \<open>
  C9, amended. In a response of the writing service that passes the validation (JSON found
  and parsed; title, content and metaDescription truthy) and whose content is a string
  (or whose excerpt is truthy), every falsy optional field is replaced by a default: a
  falsy score, 0 included, becomes 75, falsy or missing tags become the empty list, and a
  falsy or missing excerpt becomes the first 200 characters of the content, with the HTML
  tags of that prefix stripped, followed by "...". The score returned is never 0, and no
  other field changes.
\<close>

theorem blog_defaults:
  assumes m: "json_match (response_text response_content) = Some m"
    and p: "JSON_parse m = Inr parsed"
    and req: "truthy (property parsed ''title'')" "truthy (property parsed ''content'')"
      "truthy (property parsed ''metaDescription'')"
    and str: "is_string (property parsed ''content'') \<or> truthy (property parsed ''excerpt'')"
  shows "\<exists>blog. parseBlogResponse JSON_parse response_content = Inr (JObj blog) \<and>
           property blog ''tags'' =
             (if truthy (property parsed ''tags'') then property parsed ''tags'' else JArr []) \<and>
           property blog ''seoScore'' =
             (if truthy (property parsed ''seoScore'') then property parsed ''seoScore''
              else JNum 75) \<and>
           property blog ''seoScore'' \<noteq> JNum 0 \<and>
           property blog ''excerpt'' =
             (if truthy (property parsed ''excerpt'') then property parsed ''excerpt''
              else JStr (strip_tags (take 200 (string_of (property parsed ''content''))) @ ''...'')) \<and>
           (\<forall>name. name \<noteq> ''tags'' \<and> name \<noteq> ''seoScore'' \<and> name \<noteq> ''excerpt'' \<longrightarrow>
              property blog name = property parsed name)"
proof (cases "truthy (property parsed ''excerpt'')")
  case True
  with m p req show ?thesis
    by (auto simp: parseBlogResponse_def parseBlogResponse_try_def Let_def property_update
        or_else_def)
next
  case False
  with str obtain c where c: "property parsed ''content'' = JStr c"
    by (auto simp: is_string_def split: jsvalue.splits)
  with m p req False show ?thesis
    by (auto simp: parseBlogResponse_def parseBlogResponse_try_def Let_def property_update
        or_else_def string_of_def)
qed

theorem blog_defaults_witness:
  "json_match (response_text (ContentBlocks [TextBlock article_text])) = Some article_json \<and>
   example_parse article_json =
     Inr [(''title'', JStr ''T''), (''content'', JStr ''<p>Hi</p> there''),
          (''metaDescription'', JStr ''M''), (''seoScore'', JNum 0)] \<and>
   (\<exists>blog. parseBlogResponse example_parse (ContentBlocks [TextBlock article_text]) = Inr (JObj blog) \<and>
      property blog ''title'' = JStr ''T'' \<and>
      property blog ''tags'' = JArr [] \<and>
      property blog ''seoScore'' = JNum 75 \<and>
      property blog ''excerpt'' = JStr ''Hi there...'')"
proof -
  let ?parsed = "[(''title'', JStr ''T''), (''content'', JStr ''<p>Hi</p> there''),
          (''metaDescription'', JStr ''M''), (''seoScore'', JNum 0)]"
  have req: "truthy (property ?parsed ''title'')" "truthy (property ?parsed ''content'')"
      "truthy (property ?parsed ''metaDescription'')"
      "is_string (property ?parsed ''content'') \<or> truthy (property ?parsed ''excerpt'')"
    by (simp_all add: property_def is_string_def)
  from blog_defaults [where JSON_parse = example_parse, OF article_match article_parse req]
  obtain blog where b: "parseBlogResponse example_parse (ContentBlocks [TextBlock article_text]) = Inr (JObj blog)"
      "property blog ''tags'' =
             (if truthy (property ?parsed ''tags'') then property ?parsed ''tags'' else JArr [])"
      "property blog ''seoScore'' =
             (if truthy (property ?parsed ''seoScore'') then property ?parsed ''seoScore''
              else JNum 75)"
      "property blog ''excerpt'' =
             (if truthy (property ?parsed ''excerpt'') then property ?parsed ''excerpt''
              else JStr (strip_tags (take 200 (string_of (property ?parsed ''content''))) @ ''...''))"
      "\<forall>name. name \<noteq> ''tags'' \<and> name \<noteq> ''seoScore'' \<and> name \<noteq> ''excerpt'' \<longrightarrow>
              property blog name = property ?parsed name"
    by blast
  from b(5) have "property blog ''title'' = property ?parsed ''title''" by simp
  then have t: "property blog ''title'' = JStr ''T''" by (simp add: property_def)
  from b(2) have tags: "property blog ''tags'' = JArr []" by (simp add: property_def)
  from b(3) have score: "property blog ''seoScore'' = JNum 75" by (simp add: property_def)
  have "string_of (property ?parsed ''content'') = ''<p>Hi</p> there''"
    by (simp add: property_def string_of_def)
  with b(4) have ex: "property blog ''excerpt'' = JStr ''Hi there...''"
    by (simp add: property_def strip_example)
  from article_match article_parse b(1) t tags score ex show ?thesis by blast
qed

section \<open>Properties of the analyze route\<close>

lemma get_prop_defined:
  "body \<noteq> JNull \<Longrightarrow> body \<noteq> JUndefined \<Longrightarrow> \<exists>v. get_prop body name = Inr v"
  by (cases body) (simp_all add: get_prop_def)

lemma nonempty_array:
  "is_array x \<Longrightarrow> array_length x \<noteq> 0 \<Longrightarrow> \<exists>v vs. x = JArr (v # vs)"
  by (cases x) (auto simp: is_array_def array_length_def neq_Nil_conv)

lemma nonblank_string:
  "is_string x \<Longrightarrow> length (trim (string_of x)) \<noteq> 0 \<Longrightarrow> \<exists>s. x = JStr s \<and> trim s \<noteq> []"
  by (cases x) (auto simp: is_string_def string_of_def)

text \<open>
  C6, as stated, fails for the request body \<open>null\<close>: it has no sources, reading
  \<open>body.sources\<close> throws, and the \<open>catch\<close> block answers with status 500. No rate-limit
  slot is consumed.
\<close>

theorem analyze_null_body_counterexample:
  "\<not> (\<exists>v vs. get_prop JNull ''sources'' = Inr (JArr (v # vs))) \<and>
   http_status (fst (analyze_POST RateLimiter_new (Inr JNull) (Some ''10.0.0.1'') None 1000 1000
                       counting_analysis 0)) = 500 \<and>
   snd (analyze_POST RateLimiter_new (Inr JNull) (Some ''10.0.0.1'') None 1000 1000
          counting_analysis 0) = (RateLimiter_new, 0)"
  by (simp add: analyze_POST_def analyze_POST_try_def get_prop_def)

text \<open>
  C6, amended. \<open>POST /api/analyze\<close> validates its input before any rate-limit bookkeeping
  and before any external call: for every request body other than \<open>null\<close> in which
  sources is missing, not an array or empty (is not a non-empty array), or in which topic
  is missing, not a string, empty or white space only (is not a string with a character
  that is not white space), the route responds with status 400, the limiter is as it
  was and the analysis has not run.
\<close>

theorem analyze_rejects_invalid_input:
  assumes "body \<noteq> JNull" and "body \<noteq> JUndefined"
    and invalid: "\<not> (\<exists>v vs. get_prop body ''sources'' = Inr (JArr (v # vs))) \<or>
                  \<not> (\<exists>s. get_prop body ''topic'' = Inr (JStr s) \<and> trim s \<noteq> [])"
  shows "\<exists>response.
           analyze_POST rl (Inr body) forwarded_for real_ip now now' analyze world =
             (response, rl, world) \<and>
           http_status response = 400"
proof -
  obtain body_sources where s: "get_prop body ''sources'' = Inr body_sources"
    using get_prop_defined [OF assms(1,2)] by blast
  obtain body_topic where t: "get_prop body ''topic'' = Inr body_topic"
    using get_prop_defined [OF assms(1,2)] by blast
  show ?thesis
  proof (cases "\<not> truthy body_sources \<or> \<not> is_array body_sources \<or> array_length body_sources = 0")
    case True
    then show ?thesis
      by (simp add: analyze_POST_def analyze_POST_try_def s)
  next
    case False
    then have "\<exists>v vs. body_sources = JArr (v # vs)"
      using nonempty_array [of body_sources] by blast
    with invalid s t have "\<not> (\<exists>s. body_topic = JStr s \<and> trim s \<noteq> [])" by simp
    then have "\<not> truthy body_topic \<or> \<not> is_string body_topic \<or>
        length (trim (string_of body_topic)) = 0"
      using nonblank_string [of body_topic] by blast
    with False show ?thesis
      by (simp add: analyze_POST_def analyze_POST_try_def s t)
  qed
qed

theorem analyze_rejects_invalid_input_witness:
  "blank_topic_body \<noteq> JNull \<and> blank_topic_body \<noteq> JUndefined \<and>
   get_prop blank_topic_body ''topic'' = Inr (JStr ''   '') \<and> trim ''   '' = [] \<and>
   (\<exists>response.
      analyze_POST RateLimiter_new (Inr blank_topic_body) (Some ''10.0.0.1'') None 1000 1000
        counting_analysis 0 = (response, RateLimiter_new, 0) \<and>
      http_status response = 400) \<and>
   no_sources_body \<noteq> JNull \<and> no_sources_body \<noteq> JUndefined \<and>
   get_prop no_sources_body ''sources'' = Inr JUndefined \<and>
   (\<exists>response.
      analyze_POST RateLimiter_new (Inr no_sources_body) (Some ''10.0.0.1'') None 1000 1000
        counting_analysis 0 = (response, RateLimiter_new, 0) \<and>
      http_status response = 400)"
proof -
  have n1: "no_sources_body \<noteq> JNull" "no_sources_body \<noteq> JUndefined"
    by (simp_all add: no_sources_body_def)
  have n2: "get_prop no_sources_body ''sources'' = Inr JUndefined"
    by (simp add: no_sources_body_def get_prop_def property_def)
  then have n4: "\<not> (\<exists>v vs. get_prop no_sources_body ''sources'' = Inr (JArr (v # vs))) \<or>
      \<not> (\<exists>s. get_prop no_sources_body ''topic'' = Inr (JStr s) \<and> trim s \<noteq> [])"
    by simp
  note second = analyze_rejects_invalid_input [where analyze = counting_analysis and world = 0,
      OF n1 n4, of RateLimiter_new "Some ''10.0.0.1''" None 1000 1000]
  have 1: "blank_topic_body \<noteq> JNull" "blank_topic_body \<noteq> JUndefined"
    by (simp_all add: blank_topic_body_def)
  have 2: "get_prop blank_topic_body ''topic'' = Inr (JStr ''   '')"
    by (simp add: blank_topic_body_def get_prop_def property_def)
  have 3: "trim ''   '' = []" by code_simp
  from 2 3 have 4: "\<not> (\<exists>v vs. get_prop blank_topic_body ''sources'' = Inr (JArr (v # vs))) \<or>
      \<not> (\<exists>s. get_prop blank_topic_body ''topic'' = Inr (JStr s) \<and> trim s \<noteq> [])"
    by simp
  from analyze_rejects_invalid_input [where analyze = counting_analysis and world = 0,
      OF 1 4, of RateLimiter_new "Some ''10.0.0.1''" None 1000 1000] 1 2 3 second n1 n2
  show ?thesis by blast
qed

text \<open>
  A body that passes the validation goes on to the rate limiter: the request is recorded
  under the client's key and the analysis runs once.
\<close>

lemma analyze_good_body_example:
  "analyze_POST RateLimiter_new (Inr good_body) (Some ''10.0.0.1'') None 1000 1000
     counting_analysis 0 =
   (\<lparr>http_status = 200, http_body = SuccessBody ''analysis''\<rparr>,
    RateLimiter_new\<lparr>requests := [(''perplexity:10.0.0.1'', [\<lparr>timestamp = 1000, count = 1\<rparr>])]\<rparr>,
    1)"
  by code_simp

section \<open>Properties of the workflow\<close>

lemma workflow_inv_initial: "workflow_inv [] initialWorkflow"
  by (simp add: workflow_inv_def initialWorkflow_def)

lemma workflow_inv_step:
  assumes "workflow_inv events st"
  shows "workflow_inv (events @ [e]) (apply_event st e)"
proof (cases e)
  case (SetInputs newSources newTopic)
  with assms show ?thesis
    by (auto simp: workflow_inv_def both_stages_succeeded_def)
next
  case StartAnalysis
  with assms show ?thesis
    by (auto simp: workflow_inv_def both_stages_succeeded_def canAnalyze_def)
next
  case (AnalysisAnswered answer)
  with assms show ?thesis
    by (cases answer) (auto simp: workflow_inv_def both_stages_succeeded_def)
next
  case StartGeneration
  with assms show ?thesis
    by (auto simp: workflow_inv_def both_stages_succeeded_def canGenerate_def)
next
  case (GenerationAnswered answer)
  with assms show ?thesis
    by (cases answer) (auto simp: workflow_inv_def both_stages_succeeded_def)
qed

lemma workflow_inv_after: "workflow_inv events (workflow_after events)"
proof (induction events rule: rev_induct)
  case Nil
  show ?case by (simp add: workflow_after_def workflow_inv_initial)
next
  case (snoc e events)
  from workflow_inv_step [OF snoc] show ?case by (simp add: workflow_after_def)
qed

lemma ready_to_publish_iff:
  "ready_to_publish st \<longleftrightarrow> currentStep st = StepCompleted \<or> status st = StatusCompleted"
  by (cases "currentStep st")
    (auto simp: ready_to_publish_def isActive_def isCompleted_def getCurrentStepIndex_def steps_def)

text \<open>
  C5. An article is offered for export only once both stages of the pipeline have
  completed successfully: in every state the workflow reaches, the step "Ready to Publish"
  is shown as reached, or publishing is enabled, only after the research route and the
  writing route have both answered with a result and with no error recorded. No state
  offers the export while a stage is incomplete or has failed.
\<close>

theorem export_only_after_both_stages:
  "ready_to_publish (workflow_after events) \<or> export_enabled (workflow_after events) wp \<longrightarrow>
   both_stages_succeeded events (workflow_after events)"
proof
  assume offered: "ready_to_publish (workflow_after events) \<or> export_enabled (workflow_after events) wp"
  let ?st = "workflow_after events"
  have inv: "workflow_inv events ?st" by (rule workflow_inv_after)
  have "status ?st = StatusCompleted"
  proof (rule ccontr)
    assume "status ?st \<noteq> StatusCompleted"
    with inv have "blogGeneration ?st = JNull" "currentStep ?st \<noteq> StepCompleted"
      by (simp_all add: workflow_inv_def)
    with offered \<open>status ?st \<noteq> StatusCompleted\<close> show False
      by (auto simp: ready_to_publish_iff export_enabled_def)
  qed
  with inv show "both_stages_succeeded events ?st" by (simp add: workflow_inv_def)
qed

theorem export_only_after_both_stages_witness:
  "ready_to_publish (workflow_after successful_session) \<and>
   export_enabled (workflow_after successful_session) connected_wordpress \<and>
   both_stages_succeeded successful_session (workflow_after successful_session) \<and>
   \<not> ready_to_publish (workflow_after failed_session) \<and>
   \<not> export_enabled (workflow_after failed_session) connected_wordpress"
proof -
  have r: "ready_to_publish (workflow_after successful_session)" by code_simp
  have e: "export_enabled (workflow_after successful_session) connected_wordpress" by code_simp
  have f: "\<not> ready_to_publish (workflow_after failed_session)"
    "\<not> export_enabled (workflow_after failed_session) connected_wordpress"
    by code_simp+
  from export_only_after_both_stages [of successful_session connected_wordpress] r e f
  show ?thesis by blast
qed

text \<open>
  \<open>canPublish()\<close> by itself reads the WordPress store only: it holds for a connected site
  before any stage has run. The export is not enabled then, for want of an article.
\<close>

lemma canPublish_ignores_workflow:
  "canPublish connected_wordpress \<and> \<not> export_enabled initialWorkflow connected_wordpress \<and>
   \<not> ready_to_publish initialWorkflow"
  by code_simp

end
